theory Spec2Isabelle
  imports Complex_Main "HOL-Library.Word" "HOL-Library.Sublist"
begin

unbundle bit_operations_syntax

section \<open>Python strings\<close>

text \<open>
  A Python \<open>str\<close> is a sequence of code points. It is modelled as a \<open>string\<close> whose
  characters are the code points 0..255 (the Latin-1 range), so that \<open>length\<close>, slicing
  and splitting count code points as Python does.
\<close>

definition is_space :: "char \<Rightarrow> bool" where
  \<comment> \<open>\<open>str.isspace\<close> on one code point below 256\<close>
  "is_space c = (of_char c \<in> set [9, 10, 11, 12, 13, 28, 29, 30, 31, 32, 133, 160 :: nat])"

definition lower_char :: "char \<Rightarrow> char" where
  \<comment> \<open>\<open>str.lower\<close> on one code point below 256: A-Z and the accented capitals, not the
      multiplication sign\<close>
  "lower_char c =
     (let n = of_char c :: nat
      in if (65 \<le> n \<and> n \<le> 90) \<or> (192 \<le> n \<and> n \<le> 222 \<and> n \<noteq> 215)
         then char_of (n + 32) else c)"

definition py_lower :: "string \<Rightarrow> string" where
  "py_lower s = map lower_char s"

definition py_strip :: "string \<Rightarrow> string" where
  \<comment> \<open>\<open>s.strip()\<close>\<close>
  "py_strip s = rev (dropWhile is_space (rev (dropWhile is_space s)))"

fun split_ws :: "string \<Rightarrow> string \<Rightarrow> string list" where
  \<comment> \<open>\<open>s.split()\<close>: the maximal runs of non-whitespace; the first argument is the run
      being read, reversed\<close>
  "split_ws cur [] = (if cur = [] then [] else [rev cur])"
| "split_ws cur (c # cs) =
     (if is_space c then (if cur = [] then split_ws [] cs else rev cur # split_ws [] cs)
      else split_ws (c # cur) cs)"

definition py_split_ws :: "string \<Rightarrow> string list" where
  "py_split_ws s = split_ws [] s"

fun split_on :: "char \<Rightarrow> string \<Rightarrow> string \<Rightarrow> string list" where
  \<comment> \<open>\<open>s.split(sep)\<close> for a one-character separator: always at least one piece\<close>
  "split_on sep cur [] = [rev cur]"
| "split_on sep cur (c # cs) =
     (if c = sep then rev cur # split_on sep [] cs else split_on sep (c # cur) cs)"

definition py_split :: "char \<Rightarrow> string \<Rightarrow> string list" where
  "py_split sep s = split_on sep [] s"

fun py_join :: "string \<Rightarrow> string list \<Rightarrow> string" where
  \<comment> \<open>\<open>sep.join(parts)\<close>\<close>
  "py_join sep [] = []"
| "py_join sep [p] = p"
| "py_join sep (p # q # ps) = p @ sep @ py_join sep (q # ps)"

definition newline :: char where
  "newline = CHR 0x0A"

function split_blank :: "string \<Rightarrow> string \<Rightarrow> string list" where
  \<comment> \<open>\<open>re.compile(r"\n{2,}").split(s)\<close>: the separators are the maximal runs of two or
      more newlines; a single newline stays in its piece\<close>
  "split_blank cur [] = [rev cur]"
| "split_blank cur (c # cs) =
     (if c = newline \<and> cs \<noteq> [] \<and> hd cs = newline
      then rev cur # split_blank [] (dropWhile (\<lambda>x. x = newline) cs)
      else split_blank (c # cur) cs)"
  by pat_completeness auto
termination
  by (relation "measure (\<lambda>(cur, s). length s)")
     (auto simp: le_imp_less_Suc length_dropWhile_le)

definition re_split_blank :: "string \<Rightarrow> string list" where
  "re_split_blank s = split_blank [] s"

section \<open>Data model\<close>

type_synonym metadata = "string \<rightharpoonup> string"
type_synonym vector = "rat list"

text \<open>
  \<open>Chunk\<close> (chunking.py), the row payload built by \<open>IngestionService.ingest\<close>, the
  row of table \<open>document_chunks\<close> and the retrieval hit share their first fields, so
  they are extensions of one record. A score is a Python float, a finite IEEE double;
  it is carried as the rational number that the double denotes, so that two scores
  compare as the doubles do.
\<close>

record chunk_base =
  chunk_id :: string
  document_id :: string
  level :: string
  content :: string
  metadata :: metadata

record chunk = chunk_base +
  parent_id :: "string option"

record payload = chunk +
  embedding :: "vector option"
  sparse_tokens :: "string list option"

record stored_row = payload +
  created_at :: nat

record hit = chunk_base +
  score :: rat

record corpus_doc =
  doc_chunk_id :: string
  doc_document_id :: string
  doc_content :: string
  doc_tokens :: "string list"
  doc_metadata :: metadata

section \<open>Embedding adapter: the tokenizer\<close>

definition tokenize :: "string \<Rightarrow> string list" where
  \<comment> \<open>\<open>[token.lower() for token in text.split() if token.strip()]\<close>\<close>
  "tokenize text = map py_lower (filter (\<lambda>token. py_strip token \<noteq> []) (py_split_ws text))"

definition tokenize_spec :: "string \<Rightarrow> string list" where
  \<comment> \<open>the specification's words: lower-case the text, then split it on whitespace\<close>
  "tokenize_spec text = py_split_ws (py_lower text)"

section \<open>Embedding adapter: the hash-derived fallback vector\<close>

text \<open>
  \<open>hashlib.sha256\<close> is the SHA-256 of FIPS 180-4, on bytes, written out here so that the
  fallback vector can be computed.
\<close>

type_synonym w32 = "32 word"
type_synonym byte = "8 word"

definition K256 :: "w32 list" where
  \<comment> \<open>the round constants: the first 32 bits of the fractional parts of the cube roots
      of the first 64 primes\<close>
  "K256 = [
   1116352408, 1899447441, 3049323471, 3921009573, 961987163, 1508970993,
   2453635748, 2870763221, 3624381080, 310598401, 607225278, 1426881987,
   1925078388, 2162078206, 2614888103, 3248222580, 3835390401, 4022224774,
   264347078, 604807628, 770255983, 1249150122, 1555081692, 1996064986,
   2554220882, 2821834349, 2952996808, 3210313671, 3336571891, 3584528711,
   113926993, 338241895, 666307205, 773529912, 1294757372, 1396182291,
   1695183700, 1986661051, 2177026350, 2456956037, 2730485921, 2820302411,
   3259730800, 3345764771, 3516065817, 3600352804, 4094571909, 275423344,
   430227734, 506948616, 659060556, 883997877, 958139571, 1322822218,
   1537002063, 1747873779, 1955562222, 2024104815, 2227730452, 2361852424,
   2428436474, 2756734187, 3204031479, 3329325298]"

definition H256 :: "w32 list" where
  \<comment> \<open>the initial hash value: the same of the square roots of the first 8 primes\<close>
  "H256 = [
   1779033703, 3144134277, 1013904242, 2773480762,
   1359893119, 2600822924, 528734635, 1541459225]"

definition rotr :: "nat \<Rightarrow> w32 \<Rightarrow> w32" where
  "rotr n x = (drop_bit n x) OR (push_bit (32 - n) x)"

definition ch :: "w32 \<Rightarrow> w32 \<Rightarrow> w32 \<Rightarrow> w32" where
  "ch x y z = (x AND y) XOR (NOT x AND z)"
definition maj :: "w32 \<Rightarrow> w32 \<Rightarrow> w32 \<Rightarrow> w32" where
  "maj x y z = (x AND y) XOR (x AND z) XOR (y AND z)"
definition bsig0 :: "w32 \<Rightarrow> w32" where
  "bsig0 x = rotr 2 x XOR rotr 13 x XOR rotr 22 x"
definition bsig1 :: "w32 \<Rightarrow> w32" where
  "bsig1 x = rotr 6 x XOR rotr 11 x XOR rotr 25 x"
definition ssig0 :: "w32 \<Rightarrow> w32" where
  "ssig0 x = rotr 7 x XOR rotr 18 x XOR drop_bit 3 x"
definition ssig1 :: "w32 \<Rightarrow> w32" where
  "ssig1 x = rotr 17 x XOR rotr 19 x XOR drop_bit 10 x"

fun schedule :: "nat \<Rightarrow> w32 list \<Rightarrow> w32 list" where
  \<comment> \<open>the message schedule; the window holds the last 16 words, oldest first\<close>
  "schedule 0 win = []"
| "schedule (Suc n) win =
     (let w = ssig1 (win ! 14) + win ! 9 + ssig0 (win ! 1) + win ! 0
      in w # schedule n (tl win @ [w]))"

fun rounds :: "w32 list \<Rightarrow> w32 list \<Rightarrow> w32 list \<Rightarrow> w32 list" where
  "rounds (k # ks) (w # ws) [a, b, c, d, e, f, g, h] =
     (let t1 = h + bsig1 e + ch e f g + k + w;
          t2 = bsig0 a + maj a b c
      in rounds ks ws [t1 + t2, a, b, c, d + t1, e, f, g])"
| "rounds ks ws st = st"

fun be32 :: "byte list \<Rightarrow> w32 list" where
  "be32 (b0 # b1 # b2 # b3 # bs) =
     (push_bit 24 (ucast b0) OR push_bit 16 (ucast b1) OR push_bit 8 (ucast b2) OR ucast b3) # be32 bs"
| "be32 bs = []"

definition compress :: "w32 list \<Rightarrow> byte list \<Rightarrow> w32 list" where
  "compress hs block =
     (let w16 = be32 block; ws = w16 @ schedule 48 w16
      in map2 (+) hs (rounds K256 ws hs))"

fun blocks :: "byte list \<Rightarrow> nat \<Rightarrow> byte list list" where
  "blocks bs 0 = []"
| "blocks bs (Suc n) = take 64 bs # blocks (drop 64 bs) n"

definition be_bytes32 :: "w32 \<Rightarrow> byte list" where
  "be_bytes32 w = [ucast (drop_bit 24 w), ucast (drop_bit 16 w), ucast (drop_bit 8 w), ucast w]"

definition be_bytes64 :: "64 word \<Rightarrow> byte list" where
  "be_bytes64 w = map (\<lambda>i. ucast (drop_bit (8 * (7 - i)) w)) [0..<8]"

definition pad :: "byte list \<Rightarrow> byte list" where
  "pad m = m @ [0x80] @ replicate ((119 - length m mod 64) mod 64) 0 @ be_bytes64 (of_nat (8 * length m))"

definition sha256 :: "byte list \<Rightarrow> byte list" where
  "sha256 m = (let p = pad m
     in concat (map be_bytes32 (foldl compress H256 (blocks p (length p div 64)))))"

definition utf8_char :: "char \<Rightarrow> byte list" where
  \<comment> \<open>the UTF-8 encoding of one code point below 256\<close>
  "utf8_char c =
     (let n = of_char c :: byte
      in if n < 0x80 then [n] else [0xC0 OR drop_bit 6 n, 0x80 OR (n AND 0x3F)])"

definition utf8 :: "string \<Rightarrow> byte list" where
  \<comment> \<open>\<open>text.encode("utf-8")\<close>\<close>
  "utf8 s = concat (map utf8_char s)"

definition fallback_embedding_dim :: "string \<Rightarrow> nat \<Rightarrow> vector" where
  \<comment> \<open>\<open>EmbeddingService._fallback_embedding(text, dim)\<close>; a digest has 32 bytes, so
      \<open>dim // len(digest)\<close> does not divide by zero\<close>
  "fallback_embedding_dim text d =
     (let digest = sha256 (utf8 text);
          repeated = take d (concat (replicate (d div length digest + 1) digest))
      in map (\<lambda>b. of_nat (unat b) / 255) repeated)"

definition fallback_embedding :: "string \<Rightarrow> vector" where
  \<comment> \<open>the default \<open>dim = 768\<close>, the only one the service uses\<close>
  "fallback_embedding text = fallback_embedding_dim text 768"

definition embed :: "(string list \<Rightarrow> vector list) option \<Rightarrow> string list \<Rightarrow> vector list" where
  \<comment> \<open>\<open>EmbeddingService.embed\<close>; \<open>model\<close> is the encoder of the sentence-transformers
      model when one was loaded\<close>
  "embed model texts =
     (case model of Some encode \<Rightarrow> encode texts | None \<Rightarrow> map fallback_embedding texts)"

section \<open>Python lists, dictionaries and exceptions\<close>

datatype py_error = ZeroDivisionError | KeyError | IndexError

definition py_take :: "int \<Rightarrow> 'a list \<Rightarrow> 'a list" where
  \<comment> \<open>the slice \<open>xs[:n]\<close>; a negative \<open>n\<close> counts from the end\<close>
  "py_take n xs = (if 0 \<le> n then take (nat n) xs else take (length xs - nat (- n)) xs)"

definition py_sorted_desc :: "('a \<Rightarrow> rat) \<Rightarrow> 'a list \<Rightarrow> 'a list" where
  \<comment> \<open>\<open>sorted(xs, key=key, reverse=True)\<close>: descending and stable, elements with equal
      keys keep their order\<close>
  "py_sorted_desc key xs = sort_key (\<lambda>x. - key x) xs"

text \<open>
  A dictionary keeps its keys in insertion order; it is the list of its items, each key
  once. Storing under a key that is present replaces the value where it stands.
\<close>

fun dict_set :: "('k \<times> 'v) list \<Rightarrow> 'k \<Rightarrow> 'v \<Rightarrow> ('k \<times> 'v) list" where
  "dict_set [] k v = [(k, v)]"
| "dict_set ((k', v') # kvs) k v =
     (if k' = k then (k, v) # kvs else (k', v') # dict_set kvs k v)"

definition dict_of :: "('k \<times> 'v) list \<Rightarrow> ('k \<times> 'v) list" where
  \<comment> \<open>a dictionary comprehension \<open>{k: v for ...}\<close> over the pairs in order\<close>
  "dict_of kvs = foldl (\<lambda>d (k, v). dict_set d k v) [] kvs"

definition setdefault :: "('k \<times> 'v) list \<Rightarrow> 'k \<Rightarrow> 'v \<Rightarrow> ('k \<times> 'v) list" where
  "setdefault d k v = (case map_of d k of None \<Rightarrow> dict_set d k v | Some old \<Rightarrow> d)"

section \<open>Chunker\<close>

text \<open>
  \<open>uuid.uuid4()\<close> draws a random identifier. The sequence of identifiers that the
  generator delivers is the parameter \<open>src\<close>; the state is the number of draws made.
\<close>

type_synonym uuid_source = "nat \<Rightarrow> string"

definition uuid4 :: "uuid_source \<Rightarrow> nat \<Rightarrow> string \<times> nat" where
  "uuid4 src n = (src n, Suc n)"

definition make_chunk ::
  "uuid_source \<Rightarrow> nat \<Rightarrow> string \<Rightarrow> string option \<Rightarrow> string \<Rightarrow> string \<Rightarrow> metadata \<Rightarrow> chunk \<times> nat"
where
  \<comment> \<open>\<open>HierarchicalChunker._make_chunk\<close>\<close>
  "make_chunk src n doc parent lvl text md =
     (let (cid, n') = uuid4 src n
      in (\<lparr>chunk_id = cid, document_id = doc, level = lvl, content = py_strip text,
           metadata = md, parent_id = parent\<rparr>, n'))"

definition stripped_lines :: "string \<Rightarrow> string list" where
  \<comment> \<open>\<open>[line.strip() for line in s.split("\n") if line.strip()]\<close>\<close>
  "stripped_lines s = map py_strip (filter (\<lambda>line. py_strip line \<noteq> []) (py_split newline s))"

definition extract_heading :: "string \<Rightarrow> string \<times> string" where
  \<comment> \<open>\<open>HierarchicalChunker._extract_heading\<close>\<close>
  "extract_heading segment =
     (let lines = stripped_lines segment
      in if lines = [] then (''Untitled Section'', [])
         else (hd lines, if length lines > 1 then py_join [newline] (tl lines) else []))"

definition split_sections :: "string \<Rightarrow> (string \<times> string) list" where
  \<comment> \<open>\<open>HierarchicalChunker._split_sections\<close>\<close>
  "split_sections text = map extract_heading (re_split_blank text)"

fun paragraph_chunks ::
  "uuid_source \<Rightarrow> nat \<Rightarrow> string \<Rightarrow> string \<Rightarrow> metadata \<Rightarrow> string list \<Rightarrow> chunk list \<times> nat"
where
  "paragraph_chunks src n doc parent md [] = ([], n)"
| "paragraph_chunks src n doc parent md (p # ps) =
     (let (cid, n1) = uuid4 src n;
          (rest, n2) = paragraph_chunks src n1 doc parent md ps
      in (\<lparr>chunk_id = cid, document_id = doc, level = ''paragraph'', content = p,
           metadata = md, parent_id = Some parent\<rparr> # rest, n2))"

definition split_paragraphs ::
  "uuid_source \<Rightarrow> nat \<Rightarrow> string \<Rightarrow> string \<Rightarrow> string \<Rightarrow> metadata \<Rightarrow> chunk list \<times> nat"
where
  \<comment> \<open>\<open>HierarchicalChunker._split_paragraphs\<close>\<close>
  "split_paragraphs src n doc parent body md =
     paragraph_chunks src n doc parent md (stripped_lines body)"

fun section_chunks ::
  "uuid_source \<Rightarrow> nat \<Rightarrow> string \<Rightarrow> string \<Rightarrow> metadata \<Rightarrow> (string \<times> string) list
   \<Rightarrow> chunk list \<times> nat"
where
  \<comment> \<open>the loop over the sections in \<open>chunk_document\<close>\<close>
  "section_chunks src n doc title_id md [] = ([], n)"
| "section_chunks src n doc title_id md ((section_title, section_body) # rest) =
     (let (section_chunk, n1) = make_chunk src n doc (Some title_id) ''section'' section_title md;
          (paragraphs, n2) = split_paragraphs src n1 doc (chunk_id section_chunk) section_body md;
          (more, n3) = section_chunks src n2 doc title_id md rest
      in (section_chunk # paragraphs @ more, n3))"

definition chunk_document ::
  "uuid_source \<Rightarrow> nat \<Rightarrow> string \<Rightarrow> string \<Rightarrow> metadata \<Rightarrow> chunk list \<times> nat"
where
  \<comment> \<open>\<open>HierarchicalChunker.chunk_document\<close>\<close>
  "chunk_document src n doc text md =
     (if py_strip text = [] then ([], n)
      else let (title_chunk, n1) =
                 make_chunk src n doc None ''title''
                   (case md ''title'' of Some t \<Rightarrow> t | None \<Rightarrow> take 80 text) md;
               (rest, n2) = section_chunks src n1 doc (chunk_id title_chunk) md (split_sections text)
           in (title_chunk # rest, n2))"

section \<open>Ingestion: the rows handed to the store\<close>

definition make_payload :: "chunk \<Rightarrow> vector \<Rightarrow> payload" where
  \<comment> \<open>the body of the loop over \<open>zip(chunks, embeddings)\<close> in \<open>IngestionService.ingest\<close>\<close>
  "make_payload c v =
     \<lparr>chunk_id = chunk_id c, document_id = document_id c, level = level c,
      content = content c, metadata = (metadata c)(''level'' \<mapsto> level c),
      parent_id = parent_id c, embedding = Some v,
      sparse_tokens = Some (tokenize (content c))\<rparr>"

definition build_payloads :: "chunk list \<Rightarrow> vector list \<Rightarrow> payload list" where
  "build_payloads chunks embeddings = map (\<lambda>(c, v). make_payload c v) (zip chunks embeddings)"

section \<open>Chunk store\<close>

text \<open>
  Table \<open>document_chunks\<close> is a map from the primary key \<open>id\<close> (the chunk identifier)
  to the row. What the database and the clock do during one call is the environment:
  \<open>utcnow i\<close> is the clock reading taken for the \<open>i\<close>-th statement of the call (the
  column default of \<open>created_at\<close>), \<open>stmt_fails i\<close> says that executing the \<open>i\<close>-th
  statement raises, \<open>commit_fails\<close> that the commit raises.
\<close>

type_synonym table = "string \<rightharpoonup> stored_row"

datatype store_error = StoreFailure

record db_env =
  utcnow :: "nat \<Rightarrow> nat"
  stmt_fails :: "nat \<Rightarrow> bool"
  commit_fails :: bool

definition insert_row :: "nat \<Rightarrow> payload \<Rightarrow> stored_row" where
  \<comment> \<open>the \<open>values(...)\<close> of the insert; \<open>created_at\<close> takes its default\<close>
  "insert_row now row =
     \<lparr>chunk_id = chunk_id row, document_id = document_id row, level = level row,
      content = content row, metadata = metadata row, parent_id = parent_id row,
      embedding = embedding row, sparse_tokens = sparse_tokens row, created_at = now\<rparr>"

definition conflict_update :: "stored_row \<Rightarrow> payload \<Rightarrow> stored_row" where
  \<comment> \<open>\<open>on_conflict_do_update(index_elements=[id], set_={...})\<close>\<close>
  "conflict_update old row =
     old\<lparr>content := content row, metadata := metadata row,
         embedding := embedding row, sparse_tokens := sparse_tokens row\<rparr>"

definition execute_upsert :: "nat \<Rightarrow> table \<Rightarrow> payload \<Rightarrow> table" where
  "execute_upsert now tbl row =
     (case tbl (chunk_id row) of
        None \<Rightarrow> tbl(chunk_id row \<mapsto> insert_row now row)
      | Some old \<Rightarrow> tbl(chunk_id row \<mapsto> conflict_update old row))"

fun execute_rows :: "db_env \<Rightarrow> nat \<Rightarrow> table \<Rightarrow> payload list \<Rightarrow> store_error + table" where
  \<comment> \<open>the loop \<open>for row in rows: session.execute(stmt)\<close>, from statement number \<open>i\<close>\<close>
  "execute_rows env i tbl [] = Inr tbl"
| "execute_rows env i tbl (row # rows) =
     (if stmt_fails env i then Inl StoreFailure
      else execute_rows env (Suc i) (execute_upsert (utcnow env i) tbl row) rows)"

definition session_scope ::
  "db_env \<Rightarrow> table \<Rightarrow> (table \<Rightarrow> store_error + table) \<Rightarrow> (store_error + unit) \<times> table"
where
  \<comment> \<open>\<open>PGVectorStore.session_scope\<close>: the body works in a transaction on the table;
      \<open>commit\<close> makes its writes the table, \<open>rollback\<close> drops them and the exception
      is raised again\<close>
  "session_scope env db body =
     (case body db of
        Inl e \<Rightarrow> (Inl e, db)
      | Inr work \<Rightarrow> if commit_fails env then (Inl StoreFailure, db) else (Inr (), work))"

definition upsert_chunks :: "db_env \<Rightarrow> table \<Rightarrow> payload list \<Rightarrow> (store_error + nat) \<times> table" where
  \<comment> \<open>\<open>PGVectorStore.upsert_chunks\<close>\<close>
  "upsert_chunks env db rows =
     (if rows = [] then (Inr 0, db)
      else case session_scope env db (\<lambda>tbl. execute_rows env 0 tbl rows) of
             (Inl e, db') \<Rightarrow> (Inl e, db')
           | (Inr u, db') \<Rightarrow> (Inr (length rows), db'))"

section \<open>Ingestion pipeline\<close>

text \<open>
  The dictionary that ingestion returns has the keys \<open>chunks\<close>, \<open>tables\<close>,
  \<open>elapsed_ms\<close> and \<open>document_id\<close>; a table of the parser has \<open>table_id\<close>,
  \<open>title\<close> and \<open>csv\<close>.
\<close>

record table_info =
  table_id :: string
  table_title :: string
  csv :: string

record ingest_result =
  result_chunks :: nat
  result_tables :: nat
  result_elapsed_ms :: int
  result_document_id :: string

fun table_chunks ::
  "uuid_source \<Rightarrow> nat \<Rightarrow> string \<Rightarrow> metadata \<Rightarrow> string \<Rightarrow> table_info list \<Rightarrow> chunk list \<times> nat"
where
  \<comment> \<open>the comprehension over \<open>tables\<close>: one chunk for each table with a non-empty \<open>csv\<close>\<close>
  "table_chunks src n doc base_md filename [] = ([], n)"
| "table_chunks src n doc base_md filename (t # ts) =
     (if csv t = [] then table_chunks src n doc base_md filename ts
      else let (cid, n1) = uuid4 src n;
               (rest, n2) = table_chunks src n1 doc base_md filename ts
           in (\<lparr>chunk_id = cid, document_id = doc, level = ''table'', content = csv t,
                metadata = base_md(''table_id'' \<mapsto> table_id t, ''table_title'' \<mapsto> table_title t,
                                   ''source_file'' \<mapsto> filename),
                parent_id = None\<rparr> # rest, n2))"

definition ingest ::
  "uuid_source \<Rightarrow> nat \<Rightarrow> db_env \<Rightarrow> (string list \<Rightarrow> vector list) option \<Rightarrow> int \<Rightarrow> table
   \<Rightarrow> string \<times> table_info list \<Rightarrow> string \<Rightarrow> metadata
   \<Rightarrow> (store_error + ingest_result) \<times> table \<times> nat"
where
  \<comment> \<open>\<open>IngestionService.ingest\<close>. \<open>parsed\<close> is what \<open>table_service.parse\<close> returned for
      the document bytes, \<open>elapsed\<close> the measured wall-clock time. The result is the
      returned dictionary or the exception, the table afterwards, and the state of the
      identifier generator.\<close>
  "ingest src n env model elapsed db parsed filename md =
     (let (doc, n1) = (case md ''document_id'' of
                          Some d \<Rightarrow> if d \<noteq> [] then (d, n) else uuid4 src n
                        | None \<Rightarrow> uuid4 src n);
          (text, tbls) = parsed;
          base_md = md(''document_id'' \<mapsto> doc);
          (cs, n2) = chunk_document src n1 doc text base_md;
          (ts, n3) = table_chunks src n2 doc base_md filename tbls;
          all_chunks = cs @ ts;
          embeddings = embed model (map content all_chunks);
          payloads = build_payloads all_chunks embeddings
      in case upsert_chunks env db payloads of
           (Inl e, db') \<Rightarrow> (Inl e, db', n3)
         | (Inr stored, db') \<Rightarrow>
             (Inr \<lparr>result_chunks = stored, result_tables = length tbls,
                   result_elapsed_ms = elapsed, result_document_id = doc\<rparr>, db', n3))"

section \<open>Notions used in the statements about ingestion\<close>

text \<open>
  \<open>ingest_chunks\<close> is the list of chunks that one call of \<open>ingest\<close> builds: those of
  the chunker, then those of the tables. \<open>ids_from src n k\<close> are the \<open>k\<close> identifiers
  drawn from state \<open>n\<close> on. Two chunks are the \<open>same_text\<close> when they agree on
  everything but their own and their parent's identifier.
\<close>

definition same_text :: "chunk \<Rightarrow> chunk \<Rightarrow> bool" where
  "same_text a b =
     (document_id a = document_id b \<and> level a = level b \<and> content a = content b
      \<and> metadata a = metadata b)"

fun ids_from :: "uuid_source \<Rightarrow> nat \<Rightarrow> nat \<Rightarrow> string list" where
  "ids_from src n 0 = []"
| "ids_from src n (Suc k) = src n # ids_from src (Suc n) k"

definition ingest_chunks ::
  "uuid_source \<Rightarrow> nat \<Rightarrow> string \<Rightarrow> string \<Rightarrow> metadata \<Rightarrow> string \<Rightarrow> table_info list \<Rightarrow> chunk list"
where
  "ingest_chunks src n doc text base_md filename tbls =
     fst (chunk_document src n doc text base_md)
     @ fst (table_chunks src (snd (chunk_document src n doc text base_md)) doc base_md filename tbls)"

section \<open>Hybrid retriever: the sparse branch\<close>

definition corpus_doc_of_row :: "stored_row \<Rightarrow> corpus_doc" where
  \<comment> \<open>the dictionary that \<open>fetch_sparse_corpus\<close> builds from a row;
      \<open>row.sparse_tokens or []\<close> is the empty list for a null column\<close>
  "corpus_doc_of_row row =
     \<lparr>doc_chunk_id = chunk_id row, doc_document_id = document_id row, doc_content = content row,
      doc_tokens = (case sparse_tokens row of Some tokens \<Rightarrow> tokens | None \<Rightarrow> []),
      doc_metadata = metadata row\<rparr>"

definition fetch_sparse_corpus :: "stored_row list \<Rightarrow> corpus_doc list" where
  \<comment> \<open>\<open>PGVectorStore.fetch_sparse_corpus\<close>; \<open>rows\<close> is what the select returned\<close>
  "fetch_sparse_corpus rows = map corpus_doc_of_row rows"

definition sparse_item :: "corpus_doc \<Rightarrow> rat \<Rightarrow> hit" where
  "sparse_item doc s =
     \<lparr>chunk_id = doc_chunk_id doc, document_id = doc_document_id doc,
      level = (case doc_metadata doc ''level'' of Some l \<Rightarrow> l | None \<Rightarrow> ''paragraph''),
      content = doc_content doc, metadata = doc_metadata doc, score = s\<rparr>"

definition sparse_retrieval ::
  "(string list list \<Rightarrow> string list \<Rightarrow> rat list) \<Rightarrow> corpus_doc list \<Rightarrow> string \<Rightarrow> int \<Rightarrow> hit list"
where
  \<comment> \<open>\<open>HybridRetriever._sparse_retrieval\<close>. The BM25 scorer of library \<open>rank_bm25\<close> is the
      parameter \<open>bm25\<close> (index documents, query tokens, one score per document); \<open>corpus\<close>
      is what \<open>fetch_sparse_corpus\<close> returned, the documents of the rows in the table.\<close>
  "sparse_retrieval bm25 corpus query top_k =
     (if corpus = [] then []
      else let tokenized_docs = map doc_tokens corpus;
               query_tokens = tokenize query;
               scores = bm25 tokenized_docs query_tokens;
               items = map (\<lambda>(doc, s). sparse_item doc s) (zip corpus scores)
           in py_take top_k (py_sorted_desc score items))"

section \<open>Python floats\<close>

text \<open>
  Fusion divides and adds floats. A double denotes a rational, but the quotient and the
  sum of two doubles are rounded, so the two operations are kept apart from the exact
  ones: \<open>fdiv ops n\<close> is the float \<open>1.0 / n\<close> for a non-zero integer \<open>n\<close>, and
  \<open>fadd ops a b\<close> the float \<open>a + b\<close>. What is proved for every \<open>ops\<close> holds for the
  arithmetic of the interpreter.

  \<open>double_ops\<close> is that arithmetic for binary64: \<open>round_double\<close> rounds a rational to
  the nearest number with a 53-bit significand, ties to the even significand. The
  exponent is not bounded here, which agrees with binary64 for magnitudes from
  \<open>2 ^ -1022\<close> up to \<open>2 ^ 1024\<close>. \<open>exact_ops\<close> is the arithmetic of the rationals,
  without rounding.
\<close>

record float_ops =
  fdiv :: "int \<Rightarrow> rat"
  fadd :: "rat \<Rightarrow> rat \<Rightarrow> rat"

function ilog2 :: "int \<Rightarrow> int" where
  \<comment> \<open>\<open>n.bit_length() - 1\<close> for a positive \<open>n\<close>\<close>
  "ilog2 n = (if n < 2 then 0 else 1 + ilog2 (n div 2))"
  by pat_completeness auto

termination
  by (relation "measure nat") auto

declare ilog2.simps [simp del]

definition scale2 :: "rat \<Rightarrow> int \<Rightarrow> rat" where
  \<comment> \<open>\<open>q * 2 ** e\<close>\<close>
  "scale2 q e = (if 0 \<le> e then q * 2 ^ nat e else q / 2 ^ nat (- e))"

definition round_half_even :: "rat \<Rightarrow> int" where
  "round_half_even q =
     (let f = \<lfloor>q\<rfloor>; d = q - of_int f
      in if d < 1 / 2 then f else if 1 / 2 < d then f + 1 else if even f then f else f + 1)"

definition binade :: "rat \<Rightarrow> int" where
  \<comment> \<open>the \<open>e\<close> with \<open>2 ** e \<le> q < 2 ** (e + 1)\<close>, for a positive \<open>q\<close>\<close>
  "binade q =
     (let (a, b) = quotient_of q;
          e = ilog2 a - ilog2 b
      in if scale2 1 e \<le> q then e else e - 1)"

definition round_double :: "rat \<Rightarrow> rat" where
  "round_double q =
     (if q = 0 then 0
      else let e = binade \<bar>q\<bar>;
               m = round_half_even (scale2 \<bar>q\<bar> (52 - e))
           in sgn q * scale2 (of_int m) (e - 52))"

definition double_div :: "int \<Rightarrow> rat" where
  \<comment> \<open>\<open>1.0 / n\<close>: the integer is converted to a float, then the quotient is rounded\<close>
  "double_div n = round_double (1 / round_double (of_int n))"

definition double_add :: "rat \<Rightarrow> rat \<Rightarrow> rat" where
  "double_add a b = round_double (a + b)"

definition double_ops :: float_ops where
  "double_ops = \<lparr>fdiv = double_div, fadd = double_add\<rparr>"

definition exact_ops :: float_ops where
  "exact_ops = \<lparr>fdiv = (\<lambda>n. 1 / of_int n), fadd = (+)\<rparr>"

section \<open>Reciprocal rank fusion\<close>

type_synonym ranking = "(string \<times> rat) list"
type_synonym fusion_state = "(string \<times> rat) list \<times> (string \<times> string) list"

fun fuse_source ::
  "float_ops \<Rightarrow> int \<Rightarrow> string \<Rightarrow> nat \<Rightarrow> ranking \<Rightarrow> fusion_state \<Rightarrow> py_error + fusion_state"
where
  \<comment> \<open>\<open>for rank, (chunk_id, _score) in enumerate(items, start=1)\<close>, from \<open>rank\<close> on; the
      state is the accumulator (a \<open>defaultdict(float)\<close>) and the provenance dictionary\<close>
  "fuse_source ops k source rank [] st = Inr st"
| "fuse_source ops k source rank ((cid, s) # items) (accumulator, provenance) =
     (if k + int rank = 0 then Inl ZeroDivisionError
      else fuse_source ops k source (Suc rank) items
             (dict_set accumulator cid
                (fadd ops (case map_of accumulator cid of Some v \<Rightarrow> v | None \<Rightarrow> 0)
                   (fdiv ops (k + int rank))),
              setdefault provenance cid source))"

fun fuse_all ::
  "float_ops \<Rightarrow> int \<Rightarrow> (string \<times> ranking) list \<Rightarrow> fusion_state \<Rightarrow> py_error + fusion_state"
where
  \<comment> \<open>\<open>for source, items in rankings.items()\<close>\<close>
  "fuse_all ops k [] st = Inr st"
| "fuse_all ops k ((source, items) # rest) st =
     (case fuse_source ops k source 1 items st of
        Inl e \<Rightarrow> Inl e
      | Inr st' \<Rightarrow> fuse_all ops k rest st')"

fun with_provenance ::
  "(string \<times> string) list \<Rightarrow> (string \<times> rat) list \<Rightarrow> py_error + (string \<times> rat \<times> string) list"
where
  \<comment> \<open>\<open>((chunk_id, score, provenance[chunk_id]) for chunk_id, score in accumulator.items())\<close>\<close>
  "with_provenance provenance [] = Inr []"
| "with_provenance provenance ((cid, s) # rest) =
     (case map_of provenance cid of
        None \<Rightarrow> Inl KeyError
      | Some source \<Rightarrow>
          (case with_provenance provenance rest of
             Inl e \<Rightarrow> Inl e
           | Inr items \<Rightarrow> Inr ((cid, s, source) # items)))"

definition reciprocal_rank_fusion ::
  "float_ops \<Rightarrow> (string \<times> ranking) list \<Rightarrow> int \<Rightarrow> py_error + (string \<times> rat \<times> string) list"
where
  \<comment> \<open>\<open>reciprocal_rank_fusion(rankings, k)\<close>; \<open>rankings\<close> is the dictionary, as its
      items in insertion order\<close>
  "reciprocal_rank_fusion ops rankings k =
     (case fuse_all ops k rankings ([], []) of
        Inl e \<Rightarrow> Inl e
      | Inr (accumulator, provenance) \<Rightarrow>
          (case with_provenance provenance accumulator of
             Inl e \<Rightarrow> Inl e
           | Inr items \<Rightarrow> Inr (py_sorted_desc (\<lambda>(cid, s, source). s) items)))"

section \<open>Hybrid retriever: fusion of the two branches\<close>

fun enrich :: "(string \<times> hit) list \<Rightarrow> (string \<times> rat) list \<Rightarrow> py_error + hit list" where
  \<comment> \<open>\<open>({**enriched[chunk_id], "score": fused_map[chunk_id]} for chunk_id in fused_map)\<close>\<close>
  "enrich enriched [] = Inr []"
| "enrich enriched ((cid, s) # rest) =
     (case map_of enriched cid of
        None \<Rightarrow> Inl KeyError
      | Some h \<Rightarrow>
          (case enrich enriched rest of
             Inl e \<Rightarrow> Inl e
           | Inr hits \<Rightarrow> Inr (h\<lparr>score := s\<rparr> # hits)))"

definition retrieve ::
  "float_ops \<Rightarrow> (string \<Rightarrow> int \<Rightarrow> hit list) \<Rightarrow> (string \<Rightarrow> int \<Rightarrow> hit list) \<Rightarrow> int \<Rightarrow> string
   \<Rightarrow> int \<Rightarrow> py_error + hit list"
where
  \<comment> \<open>\<open>HybridRetriever.retrieve\<close>; \<open>dense_retrieval\<close> and \<open>sparse_retrieval\<close> are the two
      branches (the store and the scorer behind them are external)\<close>
  "retrieve ops dense_retrieval sparse_branch rrf_k query top_k =
     (let dense_hits = dense_retrieval query (top_k * 2);
          sparse_hits = sparse_branch query (top_k * 4)
      in case reciprocal_rank_fusion ops
                [(''dense'', map (\<lambda>h. (chunk_id h, score h)) dense_hits),
                 (''sparse'', map (\<lambda>h. (chunk_id h, score h)) sparse_hits)] rrf_k of
           Inl e \<Rightarrow> Inl e
         | Inr fused \<Rightarrow>
             (let fused_map = dict_of (map (\<lambda>(cid, s, source). (cid, s)) fused);
                  enriched = dict_of (map (\<lambda>h. (chunk_id h, h)) (dense_hits @ sparse_hits))
              in case enrich enriched fused_map of
                   Inl e \<Rightarrow> Inl e
                 | Inr items \<Rightarrow> Inr (py_take top_k (py_sorted_desc score items))))"

section \<open>Notions used in the statements about fusion\<close>

text \<open>
  The specification's account of a fused score: each item at rank \<open>r\<close> of a source's
  list adds \<open>1 / (k + r)\<close> for its chunk, and the fused score of a chunk is the sum over
  all sources. In floats the sum is taken term by term, from 0.0, in the order of the
  sources and of their lists: \<open>accumulate ops k r cid items a\<close> is \<open>a\<close> after one list
  whose first item has rank \<open>r\<close>, and \<open>rrf_score ops k rankings cid\<close> the score after
  all of them. \<open>rank_contrib k r cid items\<close> is what one list adds for \<open>cid\<close> when
  nothing is rounded. The provenance of a chunk is the first source, in the order
  of the dictionary, whose list holds it. \<open>first_pos xs x\<close> is the position of the
  first occurrence of \<open>x\<close>; \<open>add_keys\<close> appends the keys not yet seen, as the
  accumulator does; \<open>tie_order\<close> is the order of the returned hits.
\<close>

fun accumulate :: "float_ops \<Rightarrow> int \<Rightarrow> nat \<Rightarrow> string \<Rightarrow> ranking \<Rightarrow> rat \<Rightarrow> rat" where
  "accumulate ops k rank cid [] a = a"
| "accumulate ops k rank cid ((c, s) # items) a =
     accumulate ops k (Suc rank) cid items
       (if c = cid then fadd ops a (fdiv ops (k + int rank)) else a)"

definition rrf_score :: "float_ops \<Rightarrow> int \<Rightarrow> (string \<times> ranking) list \<Rightarrow> string \<Rightarrow> rat" where
  "rrf_score ops k rankings cid =
     foldl (\<lambda>a (source, items). accumulate ops k 1 cid items a) 0 rankings"

fun rank_contrib :: "int \<Rightarrow> nat \<Rightarrow> string \<Rightarrow> ranking \<Rightarrow> rat" where
  "rank_contrib k rank cid [] = 0"
| "rank_contrib k rank cid ((c, s) # items) =
     (if c = cid then 1 / of_int (k + int rank) else 0) + rank_contrib k (Suc rank) cid items"

definition exact_score :: "int \<Rightarrow> (string \<times> ranking) list \<Rightarrow> string \<Rightarrow> rat" where
  "exact_score k rankings cid = sum_list (map (\<lambda>(source, items). rank_contrib k 1 cid items) rankings)"

definition rrf_provenance :: "(string \<times> ranking) list \<Rightarrow> string \<Rightarrow> string option" where
  "rrf_provenance rankings cid =
     map_option fst (find (\<lambda>(source, items). cid \<in> fst ` set items) rankings)"

definition first_pos :: "'a list \<Rightarrow> 'a \<Rightarrow> nat" where
  "first_pos xs x = length (takeWhile (\<lambda>y. y \<noteq> x) xs)"

fun add_keys :: "'a list \<Rightarrow> 'a list \<Rightarrow> 'a list" where
  "add_keys ks [] = ks"
| "add_keys ks (c # cs) = add_keys (if c \<in> set ks then ks else ks @ [c]) cs"

definition get0 :: "('k \<times> rat) list \<Rightarrow> 'k \<Rightarrow> rat" where
  "get0 d k = (case map_of d k of Some v \<Rightarrow> v | None \<Rightarrow> 0)"

definition all_ids :: "(string \<times> ranking) list \<Rightarrow> string list" where
  "all_ids rankings = concat (map (\<lambda>(source, items). map fst items) rankings)"

definition branch_rankings :: "hit list \<Rightarrow> hit list \<Rightarrow> (string \<times> ranking) list" where
  "branch_rankings dense_hits sparse_hits =
     [(''dense'', map (\<lambda>h. (chunk_id h, score h)) dense_hits),
      (''sparse'', map (\<lambda>h. (chunk_id h, score h)) sparse_hits)]"

definition fused_score :: "float_ops \<Rightarrow> int \<Rightarrow> hit list \<Rightarrow> hit list \<Rightarrow> string \<Rightarrow> rat" where
  "fused_score ops k dense_hits sparse_hits cid =
     rrf_score ops k (branch_rankings dense_hits sparse_hits) cid"

definition tie_order :: "string list \<Rightarrow> hit \<Rightarrow> hit \<Rightarrow> bool" where
  "tie_order ids a b =
     (score b < score a
      \<or> (score a = score b \<and> first_pos ids (chunk_id a) < first_pos ids (chunk_id b)))"

section \<open>Answer orchestrator\<close>

datatype llm_error = LLMFailure

record query_result =
  answer_text :: string
  references :: "hit list"
  grounded :: bool
  latency_ms :: int

definition format_context :: "(rat \<Rightarrow> string) \<Rightarrow> hit list \<Rightarrow> string" where
  \<comment> \<open>\<open>QueryOrchestrator._format_context\<close>; \<open>fmt\<close> is the float format \<open>:.4f\<close>\<close>
  "format_context fmt hits =
     py_join [newline, newline]
       (map (\<lambda>h. ''['' @ chunk_id h @ ''] doc='' @ document_id h @ '' level='' @ level h
                  @ '' score='' @ fmt (score h) @ [newline] @ content h) hits)"

definition fallback_answer :: "hit list \<Rightarrow> string \<Rightarrow> py_error + string" where
  \<comment> \<open>\<open>QueryOrchestrator._fallback_answer\<close>; \<open>hits[0]\<close> raises on an empty list\<close>
  "fallback_answer hits question =
     (case hits of
        [] \<Rightarrow> Inl IndexError
      | best # others \<Rightarrow>
          Inr (''Answer synthesized without LLM due to configuration limits.'' @ [newline]
               @ ''Question: '' @ question @ [newline]
               @ ''Best match ('' @ chunk_id best @ ''): '' @ content best))"

definition generate_answer ::
  "(rat \<Rightarrow> string) \<Rightarrow> (string \<Rightarrow> string \<Rightarrow> llm_error + string) option \<Rightarrow> string \<Rightarrow> hit list
   \<Rightarrow> py_error + string"
where
  \<comment> \<open>\<open>QueryOrchestrator._generate_answer\<close>; \<open>chain\<close> is the prompt chain when a language
      model is configured, and invoking it may raise\<close>
  "generate_answer fmt chain question hits =
     (if hits = [] then Inr ''No relevant answer found.''
      else let context_block = format_context fmt hits
           in case chain of
                Some invoke \<Rightarrow>
                  (case invoke question context_block of
                     Inr text \<Rightarrow> Inr text
                   | Inl err \<Rightarrow> fallback_answer hits question)
              | None \<Rightarrow> fallback_answer hits question)"

definition answer ::
  "float_ops \<Rightarrow> (string \<Rightarrow> int \<Rightarrow> hit list) \<Rightarrow> (string \<Rightarrow> int \<Rightarrow> hit list) \<Rightarrow> int
   \<Rightarrow> (rat \<Rightarrow> string) \<Rightarrow> (string \<Rightarrow> string \<Rightarrow> llm_error + string) option \<Rightarrow> int \<Rightarrow> string
   \<Rightarrow> int \<Rightarrow> bool \<Rightarrow> py_error + query_result"
where
  \<comment> \<open>\<open>QueryOrchestrator.answer\<close>; \<open>elapsed\<close> is the measured wall-clock time\<close>
  "answer ops dense_retrieval sparse_branch rrf_k fmt chain elapsed question top_k audit_trail =
     (case retrieve ops dense_retrieval sparse_branch rrf_k question top_k of
        Inl e \<Rightarrow> Inl e
      | Inr hits \<Rightarrow>
          (case generate_answer fmt chain question hits of
             Inl e \<Rightarrow> Inl e
           | Inr a \<Rightarrow>
               Inr \<lparr>answer_text = a, references = (if audit_trail then hits else []),
                    grounded = (hits \<noteq> []), latency_ms = elapsed\<rparr>))"

section \<open>Sample data\<close>

definition chunker_text :: string where
  "chunker_text = ''Title\<newline>\<newline>Heading1\<newline>line1\<newline>line2\<newline>\<newline>Heading2\<newline>line3''"

fun decimal :: "nat \<Rightarrow> nat \<Rightarrow> string" where
  \<comment> \<open>the decimal digits of a number below \<open>10 ^ digits\<close>\<close>
  "decimal 0 n = []"
| "decimal (Suc k) n = decimal k (n div 10) @ [char_of (48 + n mod 10)]"

definition example_uuids :: uuid_source where
  \<comment> \<open>a generator that never repeats an identifier within its first million draws\<close>
  "example_uuids n = ''uuid-'' @ decimal 6 n"

definition example_hit :: "string \<Rightarrow> string \<Rightarrow> rat \<Rightarrow> hit" where
  "example_hit cid text s =
     \<lparr>chunk_id = cid, document_id = ''d1'', level = ''paragraph'', content = text,
      metadata = Map.empty, score = s\<rparr>"

definition example_payload :: "string \<Rightarrow> string \<Rightarrow> payload" where
  "example_payload cid text =
     \<lparr>chunk_id = cid, document_id = ''d1'', level = ''paragraph'', content = text,
      metadata = Map.empty, parent_id = None, embedding = Some [1 / 2],
      sparse_tokens = Some (tokenize text)\<rparr>"

definition example_table :: table where
  \<comment> \<open>one row, written at time 7\<close>
  "example_table = Map.empty(''c1'' \<mapsto> insert_row 7 (example_payload ''c1'' ''old text''))"

definition example_rows :: "payload list" where
  "example_rows = [example_payload ''c1'' ''new text'', example_payload ''c2'' ''more'']"

definition example_env :: db_env where
  \<comment> \<open>nothing fails; the clock reads 100, 101, ...\<close>
  "example_env = \<lparr>utcnow = (\<lambda>i. 100 + i), stmt_fails = (\<lambda>i. False), commit_fails = False\<rparr>"

definition failing_env :: db_env where
  \<comment> \<open>the second statement of the batch raises\<close>
  "failing_env = \<lparr>utcnow = (\<lambda>i. 100 + i), stmt_fails = (\<lambda>i. i = 1), commit_fails = False\<rparr>"

definition example_rankings :: "(string \<times> ranking) list" where
  "example_rankings =
     [(''dense'', [(''a'', 9 / 10), (''b'', 1 / 2)]),
      (''sparse'', [(''b'', 3), (''c'', 2), (''a'', 1)])]"

definition example_dense :: "string \<Rightarrow> int \<Rightarrow> hit list" where
  "example_dense q n = [example_hit ''id-a'' ''Alpha'' (9 / 10), example_hit ''id-b'' ''Beta'' (1 / 2)]"

definition example_sparse :: "string \<Rightarrow> int \<Rightarrow> hit list" where
  "example_sparse q n = [example_hit ''id-c'' ''Gamma'' 3, example_hit ''id-a'' ''Alpha2'' 2]"

definition disjoint_sparse :: "string \<Rightarrow> int \<Rightarrow> hit list" where
  "disjoint_sparse q n = [example_hit ''id-c'' ''Gamma'' 3, example_hit ''id-d'' ''Delta'' 2]"

text \<open>
  Two branch lists on which rounding decides the order: with \<open>k = 9\<close> chunk \<open>x\<close> collects
  \<open>1 / 15 + 1 / 10\<close> and chunk \<open>y\<close> collects \<open>1 / 12 + 1 / 12\<close>, which are both \<open>1 / 6\<close>
  exactly but are the floats 0.16666666666666669 and 0.16666666666666666.
\<close>

definition rounding_dense :: "string \<Rightarrow> int \<Rightarrow> hit list" where
  "rounding_dense q n =
     [example_hit ''d1'' ''D1'' 6, example_hit ''d2'' ''D2'' 5, example_hit ''y'' ''Y'' 4,
      example_hit ''d4'' ''D4'' 3, example_hit ''d5'' ''D5'' 2, example_hit ''x'' ''X'' 1]"

definition rounding_sparse :: "string \<Rightarrow> int \<Rightarrow> hit list" where
  "rounding_sparse q n = [example_hit ''x'' ''X'' 3, example_hit ''s2'' ''S2'' 2, example_hit ''y'' ''Y'' 1]"

definition overlap_scorer :: "string list list \<Rightarrow> string list \<Rightarrow> rat list" where
  \<comment> \<open>a scorer in the place of BM25: the number of query tokens that occur in the document\<close>
  "overlap_scorer docs query_tokens =
     map (\<lambda>doc. of_nat (length (filter (\<lambda>token. token \<in> set doc) query_tokens))) docs"

definition stub_model :: "(string list \<Rightarrow> vector list) option" where
  "stub_model = Some (map (\<lambda>t. [1 / 2]))"

definition example_metadata :: metadata where
  "example_metadata = Map.empty(''document_id'' \<mapsto> ''doc-1'')"

definition first_ingest :: "(store_error + ingest_result) \<times> table \<times> nat" where
  "first_ingest =
     ingest example_uuids 0 example_env stub_model 5 Map.empty (chunker_text, [])
       ''report.txt'' example_metadata"

definition second_ingest :: "(store_error + ingest_result) \<times> table \<times> nat" where
  "second_ingest =
     ingest example_uuids 7 example_env stub_model 5 (fst (snd first_ingest)) (chunker_text, [])
       ''report.txt'' example_metadata"

section \<open>The tokenizer lower-cases and splits on whitespace\<close>

lemma is_space_lower_char: "is_space (lower_char c) = is_space c"
  by (simp add: is_space_def lower_char_def Let_def)

lemma split_ws_lower:
  "split_ws (map lower_char cur) (map lower_char s) = map (map lower_char) (split_ws cur s)"
proof (induction s arbitrary: cur)
  case Nil
  show ?case by (simp add: rev_map)
next
  case (Cons c s)
  have "split_ws (lower_char c # map lower_char cur) (map lower_char s)
        = map (map lower_char) (split_ws (c # cur) s)"
    using Cons.IH [of "c # cur"] by simp
  moreover have "split_ws [] (map lower_char s) = map (map lower_char) (split_ws [] s)"
    using Cons.IH [of "[]"] by simp
  ultimately show ?case by (simp add: is_space_lower_char rev_map)
qed

lemma split_ws_tokens:
  "\<forall>c \<in> set cur. \<not> is_space c \<Longrightarrow> w \<in> set (split_ws cur s)
   \<Longrightarrow> w \<noteq> [] \<and> (\<forall>c \<in> set w. \<not> is_space c)"
proof (induction s arbitrary: cur)
  case Nil
  then show ?case by (auto split: if_splits)
next
  case (Cons c s)
  show ?case
  proof (cases "is_space c")
    case True
    with Cons.prems have "w = rev cur \<and> cur \<noteq> [] \<or> w \<in> set (split_ws [] s)"
      by (auto split: if_splits)
    then show ?thesis
    proof
      assume "w = rev cur \<and> cur \<noteq> []"
      with Cons.prems(1) show ?thesis by simp
    next
      assume "w \<in> set (split_ws [] s)"
      then show ?thesis using Cons.IH [of "[]"] by simp
    qed
  next
    case False
    with Cons.prems have "w \<in> set (split_ws (c # cur) s)" by simp
    moreover have "\<forall>d \<in> set (c # cur). \<not> is_space d"
      using False Cons.prems(1) by simp
    ultimately show ?thesis using Cons.IH [of "c # cur"] by blast
  qed
qed

lemma py_strip_no_space: "\<forall>c \<in> set w. \<not> is_space c \<Longrightarrow> py_strip w = w"
proof -
  assume a: "\<forall>c \<in> set w. \<not> is_space c"
  have "dropWhile is_space w = w"
    using a by (cases w) simp_all
  moreover have "dropWhile is_space (rev w) = rev w"
    using a by (cases "rev w") (simp, metis dropWhile_eq_self_iff hd_in_set list.discI set_rev)
  ultimately show ?thesis by (simp add: py_strip_def)
qed

lemma tokenize_eq_spec: "tokenize text = tokenize_spec text"
proof -
  have "\<forall>w \<in> set (py_split_ws text). py_strip w \<noteq> []"
  proof
    fix w assume "w \<in> set (py_split_ws text)"
    then have "w \<noteq> [] \<and> (\<forall>c \<in> set w. \<not> is_space c)"
      using split_ws_tokens [of "[]" w "text"] by (simp add: py_split_ws_def)
    then show "py_strip w \<noteq> []" by (simp add: py_strip_no_space)
  qed
  then have "filter (\<lambda>token. py_strip token \<noteq> []) (py_split_ws text) = py_split_ws text"
    by (simp add: filter_id_conv)
  moreover have "map py_lower (py_split_ws text) = py_split_ws (py_lower text)"
  proof -
    have "map (map lower_char) (split_ws [] text) = split_ws [] (map lower_char text)"
      using split_ws_lower [of "[]" "text"] by simp
    moreover have "py_lower = map lower_char"
      by (rule ext) (simp add: py_lower_def)
    ultimately show ?thesis by (simp add: py_split_ws_def)
  qed
  ultimately show ?thesis by (simp add: tokenize_def tokenize_spec_def)
qed

section \<open>The chunker on the specification's example\<close>

lemma example_sections: "split_sections chunker_text = [(''Title'', []), (''Heading1'', ''line1\<newline>line2''), (''Heading2'', ''line3'')]"
  by code_simp
lemma example_lines_12: "stripped_lines ''line1\<newline>line2'' = [''line1'', ''line2'']" by code_simp
lemma example_lines_3: "stripped_lines ''line3'' = [''line3'']" by code_simp
lemma stripped_lines_empty: "stripped_lines [] = []" by code_simp
lemma example_text_stripped: "py_strip chunker_text = chunker_text" by code_simp
lemma example_text_short: "take 80 chunker_text = chunker_text" by code_simp
lemma example_headings_stripped: "py_strip ''Title'' = ''Title''" "py_strip ''Heading1'' = ''Heading1''" "py_strip ''Heading2'' = ''Heading2''"
  by code_simp+
lemma example_text_nonempty: "chunker_text \<noteq> []" by (simp add: chunker_text_def)

text \<open>
  C2. For the text \<open>Title\<close>, blank line, \<open>Heading1\<close>, \<open>line1\<close>, \<open>line2\<close>, blank line,
  \<open>Heading2\<close>, \<open>line3\<close>, and any document identifier, metadata and generator state,
  \<open>chunk_document\<close> returns seven chunks: the title chunk (its content is the stripped
  \<open>title\<close> of the metadata or, without one, the first 80 characters of the text, here
  the whole text), then for each of the three segments between blank lines its section
  chunk followed at once by its paragraph chunks: section \<open>Title\<close> with no paragraph,
  section \<open>Heading1\<close> with \<open>line1\<close> and \<open>line2\<close>, section \<open>Heading2\<close> with \<open>line3\<close>.
  Each section's parent is the title chunk and each paragraph's parent is its section.
\<close>

theorem chunk_document_example:
  "chunk_document src n doc chunker_text md =
     ([\<lparr>chunk_id = src n, document_id = doc, level = ''title'',
        content = (case md ''title'' of Some t \<Rightarrow> py_strip t | None \<Rightarrow> chunker_text),
        metadata = md, parent_id = None\<rparr>,
       \<lparr>chunk_id = src (n + 1), document_id = doc, level = ''section'', content = ''Title'',
        metadata = md, parent_id = Some (src n)\<rparr>,
       \<lparr>chunk_id = src (n + 2), document_id = doc, level = ''section'', content = ''Heading1'',
        metadata = md, parent_id = Some (src n)\<rparr>,
       \<lparr>chunk_id = src (n + 3), document_id = doc, level = ''paragraph'', content = ''line1'',
        metadata = md, parent_id = Some (src (n + 2))\<rparr>,
       \<lparr>chunk_id = src (n + 4), document_id = doc, level = ''paragraph'', content = ''line2'',
        metadata = md, parent_id = Some (src (n + 2))\<rparr>,
       \<lparr>chunk_id = src (n + 5), document_id = doc, level = ''section'', content = ''Heading2'',
        metadata = md, parent_id = Some (src n)\<rparr>,
       \<lparr>chunk_id = src (n + 6), document_id = doc, level = ''paragraph'', content = ''line3'',
        metadata = md, parent_id = Some (src (n + 5))\<rparr>],
      n + 7)"
proof -
  have n: "n + 1 = Suc n" "n + 2 = Suc (Suc n)" "n + 3 = Suc (Suc (Suc n))"
    "n + 4 = Suc (Suc (Suc (Suc n)))" "n + 5 = Suc (Suc (Suc (Suc (Suc n))))"
    "n + 6 = Suc (Suc (Suc (Suc (Suc (Suc n)))))"
    "n + 7 = Suc (Suc (Suc (Suc (Suc (Suc (Suc n))))))"
    by simp_all
  show ?thesis
    by (cases "md ''title''")
       (simp_all add: chunk_document_def make_chunk_def uuid4_def split_paragraphs_def
          example_sections example_lines_12 example_lines_3 stripped_lines_empty example_text_stripped example_text_short example_headings_stripped example_text_nonempty Let_def n)
qed

text \<open>
  The sections are three, not two, and the paragraphs follow their section: the first
  segment, \<open>Title\<close>, is a section as well.
\<close>

theorem chunk_document_example_counterexample:
  "map (\<lambda>c. (level c, content c))
     (fst (chunk_document example_uuids 0 ''doc-1'' chunker_text Map.empty))
   = [(''title'', chunker_text), (''section'', ''Title''), (''section'', ''Heading1''),
      (''paragraph'', ''line1''), (''paragraph'', ''line2''), (''section'', ''Heading2''),
      (''paragraph'', ''line3'')]"
  by (simp add: chunk_document_def make_chunk_def uuid4_def split_paragraphs_def
        example_sections example_lines_12 example_lines_3 stripped_lines_empty example_text_stripped example_text_short example_headings_stripped example_text_nonempty Let_def)

theorem chunk_document_example_witness:
  "map chunk_id (fst (chunk_document example_uuids 0 ''doc-1'' chunker_text Map.empty))
     = [''uuid-000000'', ''uuid-000001'', ''uuid-000002'', ''uuid-000003'', ''uuid-000004'',
        ''uuid-000005'', ''uuid-000006'']
   \<and> map parent_id (fst (chunk_document example_uuids 0 ''doc-1'' chunker_text Map.empty))
     = [None, Some ''uuid-000000'', Some ''uuid-000000'', Some ''uuid-000002'',
        Some ''uuid-000002'', Some ''uuid-000000'', Some ''uuid-000005'']
   \<and> snd (chunk_document example_uuids 0 ''doc-1'' chunker_text Map.empty) = 7"
proof -
  have u: "example_uuids 0 = ''uuid-000000''" "example_uuids 1 = ''uuid-000001''"
    "example_uuids 2 = ''uuid-000002''" "example_uuids 3 = ''uuid-000003''"
    "example_uuids 4 = ''uuid-000004''" "example_uuids 5 = ''uuid-000005''"
    "example_uuids 6 = ''uuid-000006''" "example_uuids (Suc (Suc 0)) = ''uuid-000002''"
    by code_simp+
  show ?thesis
    using chunk_document_example [of example_uuids 0 "''doc-1''" Map.empty] u by simp
qed

section \<open>The store: upsert by chunk identifier, one transaction for each batch\<close>

lemma find_append:
  "find P (xs @ ys) = (case find P xs of None \<Rightarrow> find P ys | Some x \<Rightarrow> Some x)"
  by (induction xs) auto

lemma find_SomeD: "find P xs = Some x \<Longrightarrow> P x \<and> x \<in> set xs"
  by (induction xs) (auto split: if_splits)

lemma find_rev_None: "find P (rev xs) = None \<longleftrightarrow> find P xs = None"
  by (simp add: find_None_iff)

lemma conflict_update_twice: "conflict_update (conflict_update x r0) r = conflict_update x r"
  by (simp add: conflict_update_def)

lemma conflict_update_insert: "conflict_update (insert_row t r) r = insert_row t r"
  by (simp add: conflict_update_def insert_row_def)

lemma execute_upsert_other: "chunk_id r \<noteq> c \<Longrightarrow> execute_upsert t tbl r c = tbl c"
  by (simp add: execute_upsert_def split: option.splits)

lemma execute_upsert_same:
  "execute_upsert t tbl r (chunk_id r)
   = Some (conflict_update (case tbl (chunk_id r) of Some old \<Rightarrow> old | None \<Rightarrow> insert_row t r) r)"
  by (simp add: execute_upsert_def conflict_update_insert split: option.splits)

lemma execute_rows_frame:
  "execute_rows env i tbl rows = Inr tbl' \<Longrightarrow> c \<notin> chunk_id ` set rows \<Longrightarrow> tbl' c = tbl c"
proof (induction rows arbitrary: i tbl)
  case Nil
  then show ?case by simp
next
  case (Cons r rs)
  from Cons.prems(1) have ex: "execute_rows env (Suc i) (execute_upsert (utcnow env i) tbl r) rs = Inr tbl'"
    by (simp split: if_splits)
  from Cons.prems(2) have "chunk_id r \<noteq> c" and "c \<notin> chunk_id ` set rs" by auto
  then show ?case
    using Cons.IH [OF ex] by (simp add: execute_upsert_other)
qed

lemma execute_rows_lookup:
  "execute_rows env i tbl rows = Inr tbl'
   \<Longrightarrow> find (\<lambda>x. chunk_id x = c) rows = Some r1
   \<Longrightarrow> find (\<lambda>x. chunk_id x = c) (rev rows) = Some r
   \<Longrightarrow> tbl' c = Some (conflict_update
         (case tbl c of
            Some old \<Rightarrow> old
          | None \<Rightarrow> insert_row (utcnow env (i + length (takeWhile (\<lambda>x. chunk_id x \<noteq> c) rows))) r1) r)"
proof (induction rows arbitrary: i tbl r1 r)
  case Nil
  then show ?case by simp
next
  case (Cons r0 rs)
  let ?tbl1 = "execute_upsert (utcnow env i) tbl r0"
  from Cons.prems(1) have ex: "execute_rows env (Suc i) ?tbl1 rs = Inr tbl'"
    by (simp split: if_splits)
  show ?case
  proof (cases "chunk_id r0 = c")
    case True
    then have r1: "r1 = r0" using Cons.prems(2) by simp
    have t1: "?tbl1 c = Some (conflict_update
        (case tbl c of Some old \<Rightarrow> old | None \<Rightarrow> insert_row (utcnow env i) r0) r0)"
      using execute_upsert_same [of "utcnow env i" tbl r0] True by simp
    show ?thesis
    proof (cases "find (\<lambda>x. chunk_id x = c) (rev rs)")
      case None
      then have "c \<notin> chunk_id ` set rs" by (auto simp: find_None_iff)
      then have "tbl' c = ?tbl1 c" using execute_rows_frame [OF ex] by simp
      moreover have "r = r0" using Cons.prems(3) None True by (simp add: find_append)
      ultimately show ?thesis using t1 r1 True by (cases "tbl c") simp_all
    next
      case (Some r')
      then have r: "r = r'" using Cons.prems(3) by (simp add: find_append)
      from Some have "find (\<lambda>x. chunk_id x = c) rs \<noteq> None"
        using find_rev_None [of "\<lambda>x. chunk_id x = c" rs] by simp
      then obtain r1' where f1: "find (\<lambda>x. chunk_id x = c) rs = Some r1'" by auto
      have "tbl' c = Some (conflict_update (conflict_update
        (case tbl c of Some old \<Rightarrow> old | None \<Rightarrow> insert_row (utcnow env i) r0) r0) r')"
        using Cons.IH [OF ex f1 Some] t1 by simp
      then show ?thesis using r r1 True by (cases "tbl c") (simp_all add: conflict_update_twice)
    qed
  next
    case False
    then have f1: "find (\<lambda>x. chunk_id x = c) rs = Some r1" using Cons.prems(2) by simp
    have "find (\<lambda>x. chunk_id x = c) (rev rs) \<noteq> None"
      using f1 find_rev_None [of "\<lambda>x. chunk_id x = c" rs] by simp
    then have f2: "find (\<lambda>x. chunk_id x = c) (rev rs) = Some r"
      using Cons.prems(3) by (auto simp: find_append)
    have "?tbl1 c = tbl c" using False by (simp add: execute_upsert_other)
    then show ?thesis using Cons.IH [OF ex f1 f2] False by (cases "tbl c") simp_all
  qed
qed

lemma execute_rows_fault:
  "j < length rows \<Longrightarrow> stmt_fails env (i + j) \<Longrightarrow> execute_rows env i tbl rows = Inl StoreFailure"
proof (induction rows arbitrary: i j tbl)
  case Nil
  then show ?case by simp
next
  case (Cons r rs)
  show ?case
  proof (cases j)
    case 0
    then show ?thesis using Cons.prems by simp
  next
    case (Suc j')
    then have "execute_rows env (Suc i) (execute_upsert (utcnow env i) tbl r) rs = Inl StoreFailure"
      using Cons.IH [of j' "Suc i"] Cons.prems by simp
    then show ?thesis by simp
  qed
qed

lemma execute_rows_ok:
  "\<forall>j < length rows. \<not> stmt_fails env (i + j) \<Longrightarrow> \<exists>tbl'. execute_rows env i tbl rows = Inr tbl'"
proof (induction rows arbitrary: i tbl)
  case Nil
  then show ?case by simp
next
  case (Cons r rs)
  have "\<forall>j < length rs. \<not> stmt_fails env (Suc i + j)"
  proof (intro allI impI)
    fix j assume "j < length rs"
    then have "Suc j < length (r # rs)" by simp
    then have "\<not> stmt_fails env (i + Suc j)" using Cons.prems by blast
    then show "\<not> stmt_fails env (Suc i + j)" by simp
  qed
  moreover have "\<not> stmt_fails env i" using Cons.prems by force
  ultimately show ?case using Cons.IH [of "Suc i"] by simp
qed

lemma find_last_distinct:
  "distinct (map f xs) \<Longrightarrow> r \<in> set xs \<Longrightarrow> find (\<lambda>x. f x = f r) (rev xs) = Some r"
proof (induction xs)
  case Nil
  then show ?case by simp
next
  case (Cons x xs)
  show ?case
  proof (cases "r \<in> set xs")
    case True
    then have "find (\<lambda>x. f x = f r) (rev xs) = Some r" using Cons by simp
    then show ?thesis by (simp add: find_append)
  next
    case False
    then have rx: "r = x" using Cons.prems by simp
    have "f x \<notin> f ` set xs" using Cons.prems(1) by simp
    then have "find (\<lambda>y. f y = f x) (rev xs) = None"
      by (simp add: find_None_iff) (metis imageI)
    then show ?thesis using rx by (simp add: find_append)
  qed
qed

lemma upsert_chunks_Inr:
  "upsert_chunks env db rows = (Inr n, db') \<Longrightarrow> execute_rows env 0 db rows = Inr db'"
  by (cases "execute_rows env 0 db rows")
     (auto simp: upsert_chunks_def session_scope_def split: if_splits)

lemma conflict_update_fields:
  "content (conflict_update old r) = content r \<and> metadata (conflict_update old r) = metadata r
   \<and> embedding (conflict_update old r) = embedding r
   \<and> sparse_tokens (conflict_update old r) = sparse_tokens r
   \<and> created_at (conflict_update old r) = created_at old
   \<and> chunk_id (conflict_update old r) = chunk_id old
   \<and> document_id (conflict_update old r) = document_id old
   \<and> parent_id (conflict_update old r) = parent_id old
   \<and> level (conflict_update old r) = level old"
  by (simp add: conflict_update_def)

lemma upsert_existing:
  assumes "upsert_chunks env db rows = (Inr n, db')"
    and "find (\<lambda>x. chunk_id x = c) (rev rows) = Some r" and "db c = Some old"
  shows "db' c = Some (conflict_update old r)"
proof -
  have ex: "execute_rows env 0 db rows = Inr db'"
    using assms(1) by (rule upsert_chunks_Inr)
  have "find (\<lambda>x. chunk_id x = c) rows \<noteq> None"
    using assms(2) find_rev_None [of "\<lambda>x. chunk_id x = c" rows] by simp
  then obtain r1 where "find (\<lambda>x. chunk_id x = c) rows = Some r1" by auto
  then show ?thesis
    using execute_rows_lookup [OF ex _ assms(2), of r1] assms(3) by simp
qed

lemma upsert_fresh:
  assumes "upsert_chunks env db rows = (Inr n, db')"
    and "find (\<lambda>x. chunk_id x = c) (rev rows) = Some r" and "db c = None"
    and "find (\<lambda>x. chunk_id x = c) rows = Some r1"
  shows "db' c = Some (conflict_update
           (insert_row (utcnow env (length (takeWhile (\<lambda>x. chunk_id x \<noteq> c) rows))) r1) r)"
proof -
  have ex: "execute_rows env 0 db rows = Inr db'"
    using assms(1) by (rule upsert_chunks_Inr)
  show ?thesis
    using execute_rows_lookup [OF ex assms(4) assms(2)] assms(3) by simp
qed

text \<open>
  C5. After a successful \<open>upsert_chunks\<close>: a row of the table whose chunk identifier is
  not in the batch is as before; a row that existed and whose identifier is in the batch
  has \<open>content\<close>, \<open>metadata\<close>, \<open>embedding\<close> and \<open>sparse_tokens\<close> of the batch row with
  that identifier (the last one, should the batch name the identifier twice), and its
  \<open>created_at\<close>, \<open>document_id\<close>, \<open>parent_id\<close>, \<open>level\<close> and identifier are as
  before; a row that did not exist gets as \<open>created_at\<close> the clock reading of the
  statement that inserted it, the first of the batch with that identifier.
\<close>

theorem upsert_overwrites_keeps_created_at:
  assumes "upsert_chunks env db rows = (Inr n, db')"
  shows "(\<forall>c. c \<notin> chunk_id ` set rows \<longrightarrow> db' c = db c)
    \<and> (\<forall>c r old. find (\<lambda>x. chunk_id x = c) (rev rows) = Some r \<and> db c = Some old \<longrightarrow>
          (\<exists>row. db' c = Some row
             \<and> content row = content r \<and> metadata row = metadata r
             \<and> embedding row = embedding r \<and> sparse_tokens row = sparse_tokens r
             \<and> created_at row = created_at old \<and> chunk_id row = chunk_id old
             \<and> document_id row = document_id old \<and> parent_id row = parent_id old
             \<and> level row = level old))
    \<and> (\<forall>r \<in> set rows. \<forall>old. distinct (map chunk_id rows) \<and> db (chunk_id r) = Some old \<longrightarrow>
          db' (chunk_id r) = Some (old\<lparr>content := content r, metadata := metadata r,
                                       embedding := embedding r, sparse_tokens := sparse_tokens r\<rparr>))
    \<and> (\<forall>c r1. find (\<lambda>x. chunk_id x = c) rows = Some r1 \<and> db c = None \<longrightarrow>
          (\<exists>row. db' c = Some row
             \<and> created_at row = utcnow env (length (takeWhile (\<lambda>x. chunk_id x \<noteq> c) rows))
             \<and> document_id row = document_id r1 \<and> parent_id row = parent_id r1
             \<and> level row = level r1))"
proof (intro conjI allI ballI impI)
  fix c assume "c \<notin> chunk_id ` set rows"
  then show "db' c = db c"
    using execute_rows_frame [OF upsert_chunks_Inr [OF assms]] by simp
next
  fix c r old
  assume a: "find (\<lambda>x. chunk_id x = c) (rev rows) = Some r \<and> db c = Some old"
  then have "db' c = Some (conflict_update old r)"
    using upsert_existing [OF assms] by blast
  then show "\<exists>row. db' c = Some row
             \<and> content row = content r \<and> metadata row = metadata r
             \<and> embedding row = embedding r \<and> sparse_tokens row = sparse_tokens r
             \<and> created_at row = created_at old \<and> chunk_id row = chunk_id old
             \<and> document_id row = document_id old \<and> parent_id row = parent_id old
             \<and> level row = level old"
    using conflict_update_fields [of old r] by simp
next
  fix r old
  assume r: "r \<in> set rows"
    and a: "distinct (map chunk_id rows) \<and> db (chunk_id r) = Some old"
  then have "find (\<lambda>x. chunk_id x = chunk_id r) (rev rows) = Some r"
    using find_last_distinct [of chunk_id rows r] by simp
  then have "db' (chunk_id r) = Some (conflict_update old r)"
    using upsert_existing [OF assms] a by blast
  then show "db' (chunk_id r) = Some (old\<lparr>content := content r, metadata := metadata r,
                                       embedding := embedding r, sparse_tokens := sparse_tokens r\<rparr>)"
    by (simp add: conflict_update_def)
next
  fix c r1
  assume a: "find (\<lambda>x. chunk_id x = c) rows = Some r1 \<and> db c = None"
  then have "find (\<lambda>x. chunk_id x = c) (rev rows) \<noteq> None"
    using find_rev_None [of "\<lambda>x. chunk_id x = c" rows] by simp
  then obtain r where "find (\<lambda>x. chunk_id x = c) (rev rows) = Some r" by auto
  then have "db' c = Some (conflict_update
           (insert_row (utcnow env (length (takeWhile (\<lambda>x. chunk_id x \<noteq> c) rows))) r1) r)"
    using upsert_fresh [OF assms] a by blast
  then show "\<exists>row. db' c = Some row
             \<and> created_at row = utcnow env (length (takeWhile (\<lambda>x. chunk_id x \<noteq> c) rows))
             \<and> document_id row = document_id r1 \<and> parent_id row = parent_id r1
             \<and> level row = level r1"
    by (simp add: conflict_update_def insert_row_def)
qed

theorem upsert_overwrites_keeps_created_at_witness:
  "(\<exists>row. snd (upsert_chunks example_env example_table example_rows) ''c1'' = Some row
      \<and> content row = ''new text'' \<and> created_at row = 7)
   \<and> (\<exists>row. snd (upsert_chunks example_env example_table example_rows) ''c2'' = Some row
      \<and> created_at row = 101)
   \<and> snd (upsert_chunks example_env example_table example_rows) ''c3'' = None"
proof -
  let ?db' = "snd (upsert_chunks example_env example_table example_rows)"
  have e: "upsert_chunks example_env example_table example_rows = (Inr 2, ?db')"
    by (simp add: upsert_chunks_def session_scope_def example_env_def example_rows_def)
  note t = upsert_overwrites_keeps_created_at [OF e]
  have old: "example_table ''c1'' = Some (insert_row 7 (example_payload ''c1'' ''old text''))"
    by (simp add: example_table_def)
  have l: "find (\<lambda>x. chunk_id x = ''c1'') (rev example_rows) = Some (example_payload ''c1'' ''new text'')"
    by (simp add: example_rows_def example_payload_def)
  have f2: "find (\<lambda>x. chunk_id x = ''c2'') example_rows = Some (example_payload ''c2'' ''more'')"
    by (simp add: example_rows_def example_payload_def)
  have n2: "example_table ''c2'' = None" by (simp add: example_table_def)
  have i2: "length (takeWhile (\<lambda>x. chunk_id x \<noteq> ''c2'') example_rows) = 1"
    by (simp add: example_rows_def example_payload_def)
  have c3: "''c3'' \<notin> chunk_id ` set example_rows"
    by (simp add: example_rows_def example_payload_def)
  have "\<exists>row. ?db' ''c1'' = Some row \<and> content row = content (example_payload ''c1'' ''new text'')
          \<and> created_at row = created_at (insert_row 7 (example_payload ''c1'' ''old text''))"
    using t [THEN conjunct2, THEN conjunct1, rule_format, OF conjI, OF l old] by blast
  then have "\<exists>row. ?db' ''c1'' = Some row \<and> content row = ''new text'' \<and> created_at row = 7"
    by (simp add: insert_row_def example_payload_def)
  moreover have "\<exists>row. ?db' ''c2'' = Some row
      \<and> created_at row = utcnow example_env (length (takeWhile (\<lambda>x. chunk_id x \<noteq> ''c2'') example_rows))"
    using t [THEN conjunct2, THEN conjunct2, THEN conjunct2, rule_format, OF conjI, OF f2 n2]
    by blast
  then have "\<exists>row. ?db' ''c2'' = Some row \<and> created_at row = 101"
    by (simp add: i2 example_env_def)
  moreover have "?db' ''c3'' = None"
    using t [THEN conjunct1, rule_format, OF c3] by (simp add: example_table_def)
  ultimately show ?thesis by blast
qed

text \<open>
  C6. A batch is one transaction. If executing any statement of the batch raises, or the
  commit does, \<open>upsert_chunks\<close> raises and the table is what it was before the call: no
  row of the batch is visible. If nothing fails, the call returns the number of rows,
  every chunk identifier of the batch is in the table, and its row carries the written
  columns of the batch row with that identifier (the last one, should there be two).
\<close>

theorem upsert_atomic:
  "((\<exists>i < length rows. stmt_fails env i) \<or> (rows \<noteq> [] \<and> commit_fails env)
      \<longrightarrow> upsert_chunks env db rows = (Inl StoreFailure, db))
   \<and> ((\<forall>i < length rows. \<not> stmt_fails env i) \<and> \<not> commit_fails env
      \<longrightarrow> (\<exists>db'. upsert_chunks env db rows = (Inr (length rows), db')
            \<and> (\<forall>r \<in> set rows. \<exists>row. db' (chunk_id r) = Some row)
            \<and> (\<forall>c r. find (\<lambda>x. chunk_id x = c) (rev rows) = Some r \<longrightarrow>
                 (\<exists>row. db' c = Some row \<and> content row = content r \<and> metadata row = metadata r
                    \<and> embedding row = embedding r \<and> sparse_tokens row = sparse_tokens r))))"
proof (intro conjI impI)
  assume f: "(\<exists>i < length rows. stmt_fails env i) \<or> (rows \<noteq> [] \<and> commit_fails env)"
  then have ne: "rows \<noteq> []" by auto
  show "upsert_chunks env db rows = (Inl StoreFailure, db)"
  proof (cases "execute_rows env 0 db rows")
    case (Inl e)
    then show ?thesis using ne
      by (cases e) (simp add: upsert_chunks_def session_scope_def)
  next
    case (Inr work)
    have "\<not> (\<exists>i < length rows. stmt_fails env i)"
    proof
      assume "\<exists>i < length rows. stmt_fails env i"
      then obtain i where "i < length rows" "stmt_fails env (0 + i)" by auto
      then have "execute_rows env 0 db rows = Inl StoreFailure"
        by (rule execute_rows_fault)
      then show False using Inr by simp
    qed
    then have "commit_fails env" using f by blast
    then show ?thesis using ne Inr by (simp add: upsert_chunks_def session_scope_def)
  qed
next
  assume ok: "(\<forall>i < length rows. \<not> stmt_fails env i) \<and> \<not> commit_fails env"
  then have "\<forall>j < length rows. \<not> stmt_fails env (0 + j)" by simp
  then obtain db' where ex: "execute_rows env 0 db rows = Inr db'"
    using execute_rows_ok [of rows env 0 db] by blast
  have up: "upsert_chunks env db rows = (Inr (length rows), db')"
    using ex ok by (cases rows) (simp_all add: upsert_chunks_def session_scope_def)
  have last: "\<exists>row. db' c = Some row \<and> content row = content r \<and> metadata row = metadata r
                    \<and> embedding row = embedding r \<and> sparse_tokens row = sparse_tokens r"
    if l: "find (\<lambda>x. chunk_id x = c) (rev rows) = Some r" for c r
  proof -
    have "find (\<lambda>x. chunk_id x = c) rows \<noteq> None"
      using l find_rev_None [of "\<lambda>x. chunk_id x = c" rows] by simp
    then obtain r1 where "find (\<lambda>x. chunk_id x = c) rows = Some r1" by auto
    then show ?thesis
      using execute_rows_lookup [OF ex _ l, of r1] conflict_update_fields by simp
  qed
  have present: "\<exists>row. db' (chunk_id r) = Some row" if "r \<in> set rows" for r
  proof -
    have "find (\<lambda>x. chunk_id x = chunk_id r) (rev rows) \<noteq> None"
      using that by (auto simp: find_None_iff)
    then obtain r' where "find (\<lambda>x. chunk_id x = chunk_id r) (rev rows) = Some r'" by auto
    then show ?thesis using last by blast
  qed
  show "\<exists>db'. upsert_chunks env db rows = (Inr (length rows), db')
            \<and> (\<forall>r \<in> set rows. \<exists>row. db' (chunk_id r) = Some row)
            \<and> (\<forall>c r. find (\<lambda>x. chunk_id x = c) (rev rows) = Some r \<longrightarrow>
                 (\<exists>row. db' c = Some row \<and> content row = content r \<and> metadata row = metadata r
                    \<and> embedding row = embedding r \<and> sparse_tokens row = sparse_tokens r))"
    using up last present by blast
qed

theorem upsert_atomic_witness:
  "upsert_chunks failing_env example_table example_rows = (Inl StoreFailure, example_table)
   \<and> (\<exists>db'. upsert_chunks example_env example_table example_rows = (Inr 2, db')
        \<and> (\<exists>row. db' ''c1'' = Some row \<and> content row = ''new text'')
        \<and> (\<exists>row. db' ''c2'' = Some row \<and> content row = ''more''))"
proof -
  have f: "\<exists>i < length example_rows. stmt_fails failing_env i"
    by (simp add: example_rows_def failing_env_def)
  have ok: "(\<forall>i < length example_rows. \<not> stmt_fails example_env i) \<and> \<not> commit_fails example_env"
    by (simp add: example_env_def)
  have l1: "find (\<lambda>x. chunk_id x = ''c1'') (rev example_rows) = Some (example_payload ''c1'' ''new text'')"
    by (simp add: example_rows_def example_payload_def)
  have l2: "find (\<lambda>x. chunk_id x = ''c2'') (rev example_rows) = Some (example_payload ''c2'' ''more'')"
    by (simp add: example_rows_def example_payload_def)
  have c1: "content (example_payload ''c1'' ''new text'') = ''new text''"
    and c2: "content (example_payload ''c2'' ''more'') = ''more''"
    by (simp_all add: example_payload_def)
  have n: "length example_rows = 2" by (simp add: example_rows_def)
  have "upsert_chunks failing_env example_table example_rows = (Inl StoreFailure, example_table)"
    using upsert_atomic [of example_rows failing_env example_table, THEN conjunct1] f by blast
  moreover obtain db' where up: "upsert_chunks example_env example_table example_rows = (Inr (length example_rows), db')"
    and all: "\<forall>c r. find (\<lambda>x. chunk_id x = c) (rev example_rows) = Some r \<longrightarrow>
                 (\<exists>row. db' c = Some row \<and> content row = content r \<and> metadata row = metadata r
                    \<and> embedding row = embedding r \<and> sparse_tokens row = sparse_tokens r)"
    using upsert_atomic [of example_rows example_env example_table, THEN conjunct2, rule_format, OF ok]
    by blast
  have "\<exists>row. db' ''c1'' = Some row \<and> content row = ''new text''"
    using all [rule_format, OF l1] c1 by auto
  moreover have "\<exists>row. db' ''c2'' = Some row \<and> content row = ''more''"
    using all [rule_format, OF l2] c2 by auto
  ultimately show ?thesis using up n by auto
qed

section \<open>Reciprocal rank fusion: scores, provenance and order\<close>

lemma map_of_dict_set: "map_of (dict_set d k v) k' = (if k' = k then Some v else map_of d k')"
  by (induction d) auto

lemma keys_dict_set:
  "map fst (dict_set d k v) = (if k \<in> fst ` set d then map fst d else map fst d @ [k])"
  by (induction d) (force simp: image_iff)+

lemma keys_setdefault:
  "map fst (setdefault d k v) = (if k \<in> fst ` set d then map fst d else map fst d @ [k])"
proof (cases "map_of d k")
  case None
  then show ?thesis by (simp add: setdefault_def keys_dict_set)
next
  case (Some a)
  then have "k \<in> fst ` set d" by (metis map_of_eq_None_iff option.distinct(1))
  then show ?thesis using Some by (simp add: setdefault_def)
qed

lemma map_of_setdefault:
  "map_of (setdefault d k v) k'
   = (case map_of d k' of Some s \<Rightarrow> Some s | None \<Rightarrow> if k' = k then Some v else None)"
  by (auto simp: setdefault_def map_of_dict_set split: option.splits)

lemma get0_dict_set: "get0 (dict_set d k v) k' = (if k' = k then v else get0 d k')"
  by (simp add: get0_def map_of_dict_set)

lemma fuse_source_keys:
  "fuse_source ops k src rank items (acc, prov) = Inr (acc', prov')
   \<Longrightarrow> map fst acc' = add_keys (map fst acc) (map fst items)
     \<and> map fst prov' = add_keys (map fst prov) (map fst items)"
proof (induction items arbitrary: rank acc prov)
  case Nil
  then show ?case by simp
next
  case (Cons item items)
  obtain cid s where item: "item = (cid, s)" by (cases item)
  let ?acc1 = "dict_set acc cid (fadd ops (case map_of acc cid of Some v \<Rightarrow> v | None \<Rightarrow> 0)
                 (fdiv ops (k + int rank)))"
  let ?prov1 = "setdefault prov cid src"
  from Cons.prems item have rec: "fuse_source ops k src (Suc rank) items (?acc1, ?prov1) = Inr (acc', prov')"
    by (simp split: if_splits)
  have "map fst ?acc1 = (if cid \<in> set (map fst acc) then map fst acc else map fst acc @ [cid])"
    by (simp add: keys_dict_set)
  moreover have "map fst ?prov1 = (if cid \<in> set (map fst prov) then map fst prov else map fst prov @ [cid])"
    by (simp add: keys_setdefault)
  ultimately show ?case using Cons.IH [OF rec] item by simp
qed

lemma fuse_source_score:
  "fuse_source ops k src rank items (acc, prov) = Inr (acc', prov')
   \<Longrightarrow> get0 acc' c = accumulate ops k rank c items (get0 acc c)"
proof (induction items arbitrary: rank acc prov)
  case Nil
  then show ?case by simp
next
  case (Cons item items)
  obtain cid s where item: "item = (cid, s)" by (cases item)
  let ?acc1 = "dict_set acc cid (fadd ops (get0 acc cid) (fdiv ops (k + int rank)))"
  let ?prov1 = "setdefault prov cid src"
  from Cons.prems item have rec: "fuse_source ops k src (Suc rank) items (?acc1, ?prov1) = Inr (acc', prov')"
    by (simp add: get0_def split: if_splits)
  have "get0 ?acc1 c = (if cid = c then fadd ops (get0 acc c) (fdiv ops (k + int rank)) else get0 acc c)"
    by (simp add: get0_dict_set)
  then show ?case using Cons.IH [OF rec] item by simp
qed

lemma fuse_source_prov:
  "fuse_source ops k src rank items (acc, prov) = Inr (acc', prov')
   \<Longrightarrow> map_of prov' c
       = (case map_of prov c of Some s \<Rightarrow> Some s
          | None \<Rightarrow> if c \<in> fst ` set items then Some src else None)"
proof (induction items arbitrary: rank acc prov)
  case Nil
  then show ?case by (simp split: option.splits)
next
  case (Cons item items)
  obtain cid s where item: "item = (cid, s)" by (cases item)
  let ?acc1 = "dict_set acc cid (fadd ops (case map_of acc cid of Some v \<Rightarrow> v | None \<Rightarrow> 0)
                 (fdiv ops (k + int rank)))"
  let ?prov1 = "setdefault prov cid src"
  from Cons.prems item have rec: "fuse_source ops k src (Suc rank) items (?acc1, ?prov1) = Inr (acc', prov')"
    by (simp split: if_splits)
  show ?case
    using Cons.IH [OF rec] item
    by (cases "map_of prov c") (auto simp: map_of_setdefault)
qed

lemma fuse_source_ok:
  "\<forall>r \<ge> rank. k + int r \<noteq> 0 \<Longrightarrow> \<exists>st'. fuse_source ops k src rank items st = Inr st'"
proof (induction items arbitrary: rank st)
  case Nil
  then show ?case by simp
next
  case (Cons item items)
  obtain cid s where item: "item = (cid, s)" by (cases item)
  obtain acc prov where st: "st = (acc, prov)" by (cases st)
  have "k + int rank \<noteq> 0" using Cons.prems by simp
  moreover have "\<forall>r \<ge> Suc rank. k + int r \<noteq> 0" using Cons.prems by simp
  ultimately show ?case using Cons.IH [of "Suc rank"] item st by simp
qed

lemma add_keys_append: "add_keys ks (xs @ ys) = add_keys (add_keys ks xs) ys"
  by (induction xs arbitrary: ks) simp_all

lemma fuse_all_keys:
  "fuse_all ops k rankings (acc, prov) = Inr (acc', prov')
   \<Longrightarrow> map fst acc' = add_keys (map fst acc) (all_ids rankings)
     \<and> map fst prov' = add_keys (map fst prov) (all_ids rankings)"
proof (induction rankings arbitrary: acc prov)
  case Nil
  then show ?case by (simp add: all_ids_def)
next
  case (Cons r rankings)
  obtain src items where r: "r = (src, items)" by (cases r)
  from Cons.prems r obtain acc1 prov1 where
    one: "fuse_source ops k src 1 items (acc, prov) = Inr (acc1, prov1)"
    and rest: "fuse_all ops k rankings (acc1, prov1) = Inr (acc', prov')"
    by (cases "fuse_source ops k src 1 items (acc, prov)") auto
  show ?case
    using fuse_source_keys [OF one] Cons.IH [OF rest] r
    by (simp add: all_ids_def add_keys_append)
qed

lemma fuse_all_score:
  "fuse_all ops k rankings (acc, prov) = Inr (acc', prov')
   \<Longrightarrow> get0 acc' c
       = foldl (\<lambda>a (source, items). accumulate ops k 1 c items a) (get0 acc c) rankings"
proof (induction rankings arbitrary: acc prov)
  case Nil
  then show ?case by simp
next
  case (Cons r rankings)
  obtain src items where r: "r = (src, items)" by (cases r)
  from Cons.prems r obtain acc1 prov1 where
    one: "fuse_source ops k src 1 items (acc, prov) = Inr (acc1, prov1)"
    and rest: "fuse_all ops k rankings (acc1, prov1) = Inr (acc', prov')"
    by (cases "fuse_source ops k src 1 items (acc, prov)") auto
  show ?case
    using fuse_source_score [OF one, of c] Cons.IH [OF rest] r
    by simp
qed

lemma fuse_all_prov:
  "fuse_all ops k rankings (acc, prov) = Inr (acc', prov')
   \<Longrightarrow> map_of prov' c
       = (case map_of prov c of Some s \<Rightarrow> Some s | None \<Rightarrow> rrf_provenance rankings c)"
proof (induction rankings arbitrary: acc prov)
  case Nil
  then show ?case by (simp add: rrf_provenance_def split: option.splits)
next
  case (Cons r rankings)
  obtain src items where r: "r = (src, items)" by (cases r)
  from Cons.prems r obtain acc1 prov1 where
    one: "fuse_source ops k src 1 items (acc, prov) = Inr (acc1, prov1)"
    and rest: "fuse_all ops k rankings (acc1, prov1) = Inr (acc', prov')"
    by (cases "fuse_source ops k src 1 items (acc, prov)") auto
  show ?case
    using fuse_source_prov [OF one, of c] Cons.IH [OF rest] r
    by (cases "map_of prov c") (auto simp: rrf_provenance_def)
qed

lemma fuse_all_ok:
  "0 \<le> k \<Longrightarrow> \<exists>st'. fuse_all ops k rankings st = Inr st'"
proof (induction rankings arbitrary: st)
  case Nil
  then show ?case by simp
next
  case (Cons r rankings)
  obtain src items where r: "r = (src, items)" by (cases r)
  have "\<forall>r \<ge> 1. k + int r \<noteq> 0" using Cons.prems by auto
  then obtain st1 where "fuse_source ops k src 1 items st = Inr st1"
    using fuse_source_ok [of 1 k ops src items st] by auto
  then show ?case using Cons.IH [OF Cons.prems, of st1] r by simp
qed


lemma first_pos_less: "x \<in> set xs \<Longrightarrow> first_pos xs x < length xs"
  unfolding first_pos_def by (induction xs) auto

lemma first_pos_append_in: "x \<in> set xs \<Longrightarrow> first_pos (xs @ ys) x = first_pos xs x"
  unfolding first_pos_def by (induction xs) auto

lemma first_pos_append_new: "x \<notin> set xs \<Longrightarrow> first_pos (xs @ x # ys) x = length xs"
  unfolding first_pos_def by (induction xs) auto

lemma add_keys_order:
  "distinct ks \<Longrightarrow> set ks = set pre
   \<Longrightarrow> sorted_wrt (\<lambda>a b. first_pos pre a < first_pos pre b) ks
   \<Longrightarrow> distinct (add_keys ks cs) \<and> set (add_keys ks cs) = set (pre @ cs)
     \<and> sorted_wrt (\<lambda>a b. first_pos (pre @ cs) a < first_pos (pre @ cs) b) (add_keys ks cs)"
proof (induction cs arbitrary: ks pre)
  case Nil
  then show ?case by simp
next
  case (Cons c cs)
  let ?ks1 = "if c \<in> set ks then ks else ks @ [c]"
  let ?pre1 = "pre @ [c]"
  have d: "distinct ?ks1" using Cons.prems(1) by simp
  have s: "set ?ks1 = set ?pre1" using Cons.prems(2) by auto
  have old: "sorted_wrt (\<lambda>a b. first_pos ?pre1 a < first_pos ?pre1 b) ks"
  proof (rule sorted_wrt_mono_rel [OF _ Cons.prems(3)])
    fix a b assume "a \<in> set ks" "b \<in> set ks" "first_pos pre a < first_pos pre b"
    then show "first_pos ?pre1 a < first_pos ?pre1 b"
      using Cons.prems(2) by (simp add: first_pos_append_in)
  qed
  have o: "sorted_wrt (\<lambda>a b. first_pos ?pre1 a < first_pos ?pre1 b) ?ks1"
  proof (cases "c \<in> set ks")
    case True
    then show ?thesis using old by simp
  next
    case False
    then have new: "c \<notin> set pre" using Cons.prems(2) by simp
    have "\<forall>a \<in> set ks. first_pos ?pre1 a < first_pos ?pre1 c"
    proof
      fix a assume "a \<in> set ks"
      then have "a \<in> set pre" using Cons.prems(2) by simp
      then have "first_pos ?pre1 a < length pre"
        by (simp add: first_pos_append_in first_pos_less)
      moreover have "first_pos ?pre1 c = length pre"
        using first_pos_append_new [OF new, of "[]"] by simp
      ultimately show "first_pos ?pre1 a < first_pos ?pre1 c" by simp
    qed
    then show ?thesis using False old by (simp add: sorted_wrt_append)
  qed
  show ?case using Cons.IH [OF d s o] by simp
qed

lemma add_keys_from_empty:
  "distinct (add_keys [] cs) \<and> set (add_keys [] cs) = set cs
   \<and> sorted_wrt (\<lambda>a b. first_pos cs a < first_pos cs b) (add_keys [] cs)"
  using add_keys_order [of "[]" "[]" cs] by simp

lemma insort_key_lex:
  fixes f :: "'a \<Rightarrow> rat"
  assumes "sorted_wrt (\<lambda>a b. f a < f b \<or> (f a = f b \<and> Q a b)) ys"
    and "\<forall>y \<in> set ys. Q x y"
  shows "sorted_wrt (\<lambda>a b. f a < f b \<or> (f a = f b \<and> Q a b)) (insort_key f x ys)"
  using assms
proof (induction ys)
  case Nil
  then show ?case by simp
next
  case (Cons y ys)
  show ?case
  proof (cases "f x \<le> f y")
    case True
    have "\<forall>z \<in> set (y # ys). f x < f z \<or> (f x = f z \<and> Q x z)"
    proof
      fix z assume z: "z \<in> set (y # ys)"
      then have "f y \<le> f z" using Cons.prems(1) by auto
      then have "f x \<le> f z" using True by simp
      then show "f x < f z \<or> (f x = f z \<and> Q x z)" using Cons.prems(2) z by auto
    qed
    then show ?thesis using True Cons.prems(1) by simp
  next
    case False
    have "sorted_wrt (\<lambda>a b. f a < f b \<or> (f a = f b \<and> Q a b)) (insort_key f x ys)"
      using Cons by simp
    moreover have "\<forall>z \<in> set (insort_key f x ys). f y < f z \<or> (f y = f z \<and> Q y z)"
      using False Cons.prems(1) by (auto simp: set_insort_key)
    ultimately show ?thesis using False by simp
  qed
qed

lemma sort_key_lex:
  fixes f :: "'a \<Rightarrow> rat"
  shows "sorted_wrt Q xs \<Longrightarrow> sorted_wrt (\<lambda>a b. f a < f b \<or> (f a = f b \<and> Q a b)) (sort_key f xs)"
proof (induction xs)
  case Nil
  then show ?case by simp
next
  case (Cons x xs)
  have "\<forall>y \<in> set (sort_key f xs). Q x y" using Cons.prems by simp
  then show ?case using Cons insort_key_lex [of f Q "sort_key f xs" x] by simp
qed

lemma py_sorted_desc_lex:
  "sorted_wrt Q xs
   \<Longrightarrow> sorted_wrt (\<lambda>a b. key b < key a \<or> (key a = key b \<and> Q a b)) (py_sorted_desc key xs)"
  using sort_key_lex [of Q xs "\<lambda>x. - key x"] by (simp add: py_sorted_desc_def)

lemma py_sorted_desc_set: "set (py_sorted_desc key xs) = set xs"
  by (simp add: py_sorted_desc_def)

lemma distinct_map_insort_key:
  "distinct (map g (insort_key f x ys)) = (g x \<notin> g ` set ys \<and> distinct (map g ys))"
  by (induction ys) (auto simp: set_insort_key)

lemma distinct_map_sort_key: "distinct (map g (sort_key f xs)) = distinct (map g xs)"
  by (induction xs) (simp_all add: distinct_map_insort_key)

lemma py_sorted_desc_distinct: "distinct (map g (py_sorted_desc key xs)) = distinct (map g xs)"
  by (simp add: py_sorted_desc_def distinct_map_sort_key)

lemma py_take_prefix: "\<exists>m. py_take n xs = take m xs"
  by (auto simp: py_take_def)

lemma dict_set_new: "k \<notin> fst ` set d \<Longrightarrow> dict_set d k v = d @ [(k, v)]"
  by (induction d) auto

lemma foldl_dict_set_distinct:
  "distinct (map fst (d @ kvs)) \<Longrightarrow> foldl (\<lambda>d (k, v). dict_set d k v) d kvs = d @ kvs"
proof (induction kvs arbitrary: d)
  case Nil
  then show ?case by simp
next
  case (Cons kv kvs)
  obtain k v where kv: "kv = (k, v)" by (cases kv)
  have "k \<notin> fst ` set d" using Cons.prems kv by auto
  then have "dict_set d k v = d @ [(k, v)]" by (rule dict_set_new)
  moreover have "distinct (map fst ((d @ [(k, v)]) @ kvs))" using Cons.prems kv by simp
  ultimately show ?case using Cons.IH [of "d @ [(k, v)]"] kv by simp
qed

lemma dict_of_distinct: "distinct (map fst kvs) \<Longrightarrow> dict_of kvs = kvs"
  using foldl_dict_set_distinct [of "[]" kvs] by (simp add: dict_of_def)

lemma map_of_foldl_dict_set:
  "map_of (foldl (\<lambda>d (k, v). dict_set d k v) d kvs) c
   = (case map_of (rev kvs) c of Some v \<Rightarrow> Some v | None \<Rightarrow> map_of d c)"
proof (induction kvs arbitrary: d)
  case Nil
  then show ?case by simp
next
  case (Cons kv kvs)
  obtain k v where kv: "kv = (k, v)" by (cases kv)
  show ?case
    using Cons.IH [of "dict_set d k v"] kv
    by (cases "map_of (rev kvs) c") (simp_all add: map_of_dict_set map_add_def)
qed

lemma map_of_dict_of: "map_of (dict_of kvs) c = map_of (rev kvs) c"
  using map_of_foldl_dict_set [of "[]" kvs c]
  by (cases "map_of (rev kvs) c") (simp_all add: dict_of_def)

lemma map_of_keyed: "map_of (map (\<lambda>h. (f h, h)) xs) c = find (\<lambda>h. f h = c) xs"
  by (induction xs) auto

lemma enrich_total:
  "\<forall>c \<in> fst ` set fm. map_of en c \<noteq> None
   \<Longrightarrow> enrich en fm = Inr (map (\<lambda>(c, s). (the (map_of en c))\<lparr>score := s\<rparr>) fm)"
proof (induction fm)
  case Nil
  then show ?case by simp
next
  case (Cons cs fm)
  obtain c s where cs: "cs = (c, s)" by (cases cs)
  have "map_of en c \<noteq> None" using Cons.prems cs by simp
  then obtain h where "map_of en c = Some h" by auto
  moreover have "enrich en fm = Inr (map (\<lambda>(c, s). (the (map_of en c))\<lparr>score := s\<rparr>) fm)"
    using Cons by simp
  ultimately show ?case using cs by simp
qed

lemma with_provenance_total:
  "\<forall>c \<in> fst ` set acc. map_of prov c \<noteq> None
   \<Longrightarrow> with_provenance prov acc = Inr (map (\<lambda>(c, s). (c, s, the (map_of prov c))) acc)"
proof (induction acc)
  case Nil
  then show ?case by simp
next
  case (Cons cs acc)
  obtain c s where cs: "cs = (c, s)" by (cases cs)
  have "map_of prov c \<noteq> None" using Cons.prems cs by simp
  then obtain p where "map_of prov c = Some p" by auto
  moreover have "with_provenance prov acc = Inr (map (\<lambda>(c, s). (c, s, the (map_of prov c))) acc)"
    using Cons by simp
  ultimately show ?case using cs by simp
qed


lemma map_of_distinct_in: "distinct (map fst d) \<Longrightarrow> (c, s) \<in> set d \<Longrightarrow> map_of d c = Some s"
  by simp

lemma rrf_char:
  assumes "reciprocal_rank_fusion ops rankings k = Inr fused"
  shows "\<exists>acc. fused = py_sorted_desc (\<lambda>(cid, s, source). s)
                    (map (\<lambda>(c, s). (c, s, the (rrf_provenance rankings c))) acc)
          \<and> map fst acc = add_keys [] (all_ids rankings)
          \<and> (\<forall>(c, s) \<in> set acc. s = rrf_score ops k rankings c \<and> rrf_provenance rankings c \<noteq> None)"
proof -
  obtain acc prov where f: "fuse_all ops k rankings ([], []) = Inr (acc, prov)"
    using assms by (cases "fuse_all ops k rankings ([], [])") (auto simp: reciprocal_rank_fusion_def)
  have keys: "map fst acc = add_keys [] (all_ids rankings)"
    and pkeys: "map fst prov = add_keys [] (all_ids rankings)"
    using fuse_all_keys [OF f] by simp_all
  have dist: "distinct (map fst acc)"
    using keys add_keys_from_empty [of "all_ids rankings"] by simp
  have prov: "map_of prov c = rrf_provenance rankings c" for c
    using fuse_all_prov [OF f, of c] by simp
  have present: "rrf_provenance rankings c \<noteq> None" if "c \<in> fst ` set acc" for c
  proof -
    have "c \<in> fst ` set prov" using that keys pkeys by (metis set_map)
    then have "map_of prov c \<noteq> None" by (simp add: map_of_eq_None_iff)
    then show ?thesis by (simp add: prov)
  qed
  have sc: "s = rrf_score ops k rankings c" if "(c, s) \<in> set acc" for c s
  proof -
    have "map_of acc c = Some s" using dist that by simp
    then have "get0 acc c = s" by (simp add: get0_def)
    then show ?thesis using fuse_all_score [OF f, of c] by (simp add: get0_def rrf_score_def)
  qed
  have "\<forall>c \<in> fst ` set acc. map_of prov c \<noteq> None"
    using present by (simp add: prov)
  then have "with_provenance prov acc = Inr (map (\<lambda>(c, s). (c, s, the (map_of prov c))) acc)"
    by (rule with_provenance_total)
  then have "with_provenance prov acc
             = Inr (map (\<lambda>(c, s). (c, s, the (rrf_provenance rankings c))) acc)"
    by (simp add: prov)
  then have "reciprocal_rank_fusion ops rankings k
            = Inr (py_sorted_desc (\<lambda>(cid, s, source). s)
                    (map (\<lambda>(c, s). (c, s, the (rrf_provenance rankings c))) acc))"
    using f by (simp add: reciprocal_rank_fusion_def)
  then have "fused = py_sorted_desc (\<lambda>(cid, s, source). s)
                    (map (\<lambda>(c, s). (c, s, the (rrf_provenance rankings c))) acc)"
    using assms by simp
  moreover have "\<forall>(c, s) \<in> set acc. s = rrf_score ops k rankings c \<and> rrf_provenance rankings c \<noteq> None"
  proof (clarify, intro conjI)
    fix c s assume "(c, s) \<in> set acc"
    then show "s = rrf_score ops k rankings c" by (rule sc)
  next
    fix c s assume "(c, s) \<in> set acc"
    then have "c \<in> fst ` set acc" by force
    then show "rrf_provenance rankings c \<noteq> None" by (rule present)
  qed
  ultimately show ?thesis using keys by blast
qed

lemma rrf_ok:
  assumes "0 \<le> k"
  shows "\<exists>fused. reciprocal_rank_fusion ops rankings k = Inr fused"
proof -
  obtain st where "fuse_all ops k rankings ([], []) = Inr st"
    using fuse_all_ok [OF assms] by blast
  then obtain acc prov where f: "fuse_all ops k rankings ([], []) = Inr (acc, prov)"
    by (cases st) auto
  have pkeys: "map fst prov = map fst acc" using fuse_all_keys [OF f] by simp
  have "\<forall>c \<in> fst ` set acc. map_of prov c \<noteq> None"
  proof
    fix c assume "c \<in> fst ` set acc"
    then have "c \<in> fst ` set prov" using pkeys by (metis set_map)
    then show "map_of prov c \<noteq> None" by (simp add: map_of_eq_None_iff)
  qed
  then have "with_provenance prov acc = Inr (map (\<lambda>(c, s). (c, s, the (map_of prov c))) acc)"
    by (rule with_provenance_total)
  then show ?thesis using f by (simp add: reciprocal_rank_fusion_def)
qed

lemma py_sorted_desc_descending:
  "sorted_wrt (\<lambda>a b. key b \<le> key a) (py_sorted_desc key xs)"
proof -
  have "sorted (map (\<lambda>x. - key x) (sort_key (\<lambda>x. - key x) xs))" by (rule sorted_sort_key)
  then show ?thesis by (simp add: py_sorted_desc_def sorted_wrt_map)
qed

lemma rank_contrib_absent: "c \<notin> fst ` set items \<Longrightarrow> rank_contrib k rank c items = 0"
  by (induction items arbitrary: rank) (auto simp: image_iff)

lemma rank_contrib_at:
  "distinct (map fst items) \<Longrightarrow> i < length items
   \<Longrightarrow> rank_contrib k rank (fst (items ! i)) items = 1 / of_int (k + int rank + int i)"
proof (induction items arbitrary: rank i)
  case Nil
  then show ?case by simp
next
  case (Cons item items)
  obtain c s where item: "item = (c, s)" by (cases item)
  show ?case
  proof (cases i)
    case 0
    have "c \<notin> fst ` set items" using Cons.prems(1) item by simp
    then have "rank_contrib k (Suc rank) c items = 0" by (rule rank_contrib_absent)
    then show ?thesis using 0 item by simp
  next
    case (Suc j)
    then have j: "j < length items" using Cons.prems(2) by simp
    have d: "distinct (map fst items)" using Cons.prems(1) by simp
    have "fst (items ! j) \<noteq> c" using Cons.prems(1) item j by (metis distinct.simps(2) fst_conv list.simps(9) nth_map nth_mem length_map)
    then show ?thesis using Cons.IH [OF d j, of "Suc rank"] Suc item by simp
  qed
qed

lemma accumulate_absent: "c \<notin> fst ` set items \<Longrightarrow> accumulate ops k rank c items a = a"
  by (induction items arbitrary: rank) (auto simp: image_iff)

lemma accumulate_at:
  "distinct (map fst items) \<Longrightarrow> i < length items
   \<Longrightarrow> accumulate ops k rank (fst (items ! i)) items a
       = fadd ops a (fdiv ops (k + int rank + int i))"
proof (induction items arbitrary: rank i)
  case Nil
  then show ?case by simp
next
  case (Cons item items)
  obtain c s where item: "item = (c, s)" by (cases item)
  show ?case
  proof (cases i)
    case 0
    have "c \<notin> fst ` set items" using Cons.prems(1) item by simp
    then have "accumulate ops k (Suc rank) c items (fadd ops a (fdiv ops (k + int rank)))
               = fadd ops a (fdiv ops (k + int rank))"
      by (rule accumulate_absent)
    then show ?thesis using 0 item by simp
  next
    case (Suc j)
    then have j: "j < length items" using Cons.prems(2) by simp
    have d: "distinct (map fst items)" using Cons.prems(1) by simp
    have "fst (items ! j) \<in> fst ` set items" using j by simp
    then have "fst (items ! j) \<noteq> c" using Cons.prems(1) item by auto
    then show ?thesis using Cons.IH [OF d j, of "Suc rank"] Suc item
      by (simp add: add.commute add.left_commute)
  qed
qed

lemma accumulate_exact:
  "accumulate exact_ops k rank c items a = a + rank_contrib k rank c items"
  by (induction items arbitrary: rank a) (auto simp: exact_ops_def)

lemma foldl_accumulate_exact:
  "foldl (\<lambda>a (source, items). accumulate exact_ops k 1 c items a) a rankings
   = a + sum_list (map (\<lambda>(source, items). rank_contrib k 1 c items) rankings)"
  by (induction rankings arbitrary: a) (auto simp: accumulate_exact)

lemma rrf_score_exact: "rrf_score exact_ops k rankings c = exact_score k rankings c"
  using foldl_accumulate_exact [of k c 0 rankings] by (simp add: rrf_score_def exact_score_def)

text \<open>
  C3. Whenever \<open>reciprocal_rank_fusion\<close> returns (it does for every \<open>k \<ge> 0\<close>; a negative
  \<open>k\<close> can make \<open>k + rank\<close> zero, and the division raises), the result lists each chunk
  identifier of the source lists once, with the accumulated contributions of the lists
  as score and the first source holding the chunk as provenance, in descending order of
  score. This holds in every float arithmetic. A list that does not hold the chunk
  leaves the accumulated score as it is; a list that holds each chunk once adds the
  float \<open>1.0 / (k + r)\<close> for the chunk at 1-based rank \<open>r\<close> (a list that repeats a chunk
  adds once for each occurrence). Without rounding the score is the sum over the sources
  of the list's contributions, which are 0 for a list without the chunk and
  \<open>1 / (k + r)\<close> for a list that holds it once at rank \<open>r\<close>. For the dictionary that the
  retriever passes, the provenance is \<open>dense\<close> when the dense list holds the chunk, else
  \<open>sparse\<close>.
\<close>

theorem rrf_scores_provenance_order:
  "(0 \<le> k \<longrightarrow> (\<exists>fused. reciprocal_rank_fusion ops rankings k = Inr fused))
   \<and> (\<forall>fused. reciprocal_rank_fusion ops rankings k = Inr fused \<longrightarrow>
         distinct (map fst fused)
       \<and> set (map fst fused) = set (all_ids rankings)
       \<and> (\<forall>(c, s, p) \<in> set fused. s = rrf_score ops k rankings c \<and> rrf_provenance rankings c = Some p)
       \<and> sorted_wrt (\<lambda>a b. fst (snd b) \<le> fst (snd a)) fused)
   \<and> (\<forall>c items a. c \<notin> fst ` set items \<longrightarrow> accumulate ops k 1 c items a = a)
   \<and> (\<forall>items i a. distinct (map fst items) \<and> i < length items
         \<longrightarrow> accumulate ops k 1 (fst (items ! i)) items a = fadd ops a (fdiv ops (k + (int i + 1))))
   \<and> (\<forall>c. rrf_score exact_ops k rankings c = exact_score k rankings c)
   \<and> (\<forall>c items. c \<notin> fst ` set items \<longrightarrow> rank_contrib k 1 c items = 0)
   \<and> (\<forall>items i. distinct (map fst items) \<and> i < length items
         \<longrightarrow> rank_contrib k 1 (fst (items ! i)) items = 1 / of_int (k + (int i + 1)))
   \<and> (\<forall>c ds ss. rrf_provenance [(''dense'', ds), (''sparse'', ss)] c
         = (if c \<in> fst ` set ds then Some ''dense''
            else if c \<in> fst ` set ss then Some ''sparse'' else None))"
proof (intro conjI)
  show "0 \<le> k \<longrightarrow> (\<exists>fused. reciprocal_rank_fusion ops rankings k = Inr fused)"
    using rrf_ok [of k ops rankings] by blast
  show "\<forall>fused. reciprocal_rank_fusion ops rankings k = Inr fused \<longrightarrow>
         distinct (map fst fused)
       \<and> set (map fst fused) = set (all_ids rankings)
       \<and> (\<forall>(c, s, p) \<in> set fused. s = rrf_score ops k rankings c \<and> rrf_provenance rankings c = Some p)
       \<and> sorted_wrt (\<lambda>a b. fst (snd b) \<le> fst (snd a)) fused"
  proof (intro allI impI)
    fix fused assume "reciprocal_rank_fusion ops rankings k = Inr fused"
    then obtain acc where r: "fused = py_sorted_desc (\<lambda>(cid, s, source). s)
                    (map (\<lambda>(c, s). (c, s, the (rrf_provenance rankings c))) acc)"
      and keys: "map fst acc = add_keys [] (all_ids rankings)"
      and vals: "\<forall>(c, s) \<in> set acc. s = rrf_score ops k rankings c \<and> rrf_provenance rankings c \<noteq> None"
      using rrf_char [of ops rankings k fused] by blast
    define items where "items = map (\<lambda>(c, s). (c, s, the (rrf_provenance rankings c))) acc"
    have fused: "fused = py_sorted_desc (\<lambda>(cid, s, source). s) items"
      using r by (simp only: items_def)
    have fst_items: "map fst items = map fst acc"
      unfolding items_def by (induction acc) auto
    have d: "distinct (map fst fused)"
      using keys add_keys_from_empty [of "all_ids rankings"]
      by (simp only: fused py_sorted_desc_distinct fst_items)
    have s: "set (map fst fused) = set (all_ids rankings)"
    proof -
      have "set (map fst fused) = set (map fst items)"
        by (simp only: fused set_map py_sorted_desc_set)
      then show ?thesis using keys add_keys_from_empty [of "all_ids rankings"]
        by (simp only: fst_items)
    qed
    have v: "\<forall>(c, s, p) \<in> set fused. s = rrf_score ops k rankings c \<and> rrf_provenance rankings c = Some p"
    proof (clarify)
      fix c s p assume "(c, s, p) \<in> set fused"
      then have "(c, s, p) \<in> set items" by (simp only: fused py_sorted_desc_set)
      then have "(c, s) \<in> set acc" and "p = the (rrf_provenance rankings c)"
        unfolding items_def by auto
      then show "s = rrf_score ops k rankings c \<and> rrf_provenance rankings c = Some p"
        using vals by auto
    qed
    have o: "sorted_wrt (\<lambda>a b. fst (snd b) \<le> fst (snd a)) fused"
    proof -
      have "sorted_wrt (\<lambda>a b. (\<lambda>(cid, s, source). s) b \<le> (\<lambda>(cid, s, source). s) a) fused"
        unfolding fused by (rule py_sorted_desc_descending)
      then show ?thesis by (simp add: case_prod_beta)
    qed
    show "distinct (map fst fused)
       \<and> set (map fst fused) = set (all_ids rankings)
       \<and> (\<forall>(c, s, p) \<in> set fused. s = rrf_score ops k rankings c \<and> rrf_provenance rankings c = Some p)
       \<and> sorted_wrt (\<lambda>a b. fst (snd b) \<le> fst (snd a)) fused"
      using d s v o by blast
  qed
  show "\<forall>c items a. c \<notin> fst ` set items \<longrightarrow> accumulate ops k 1 c items a = a"
    by (simp add: accumulate_absent)
  show "\<forall>items i a. distinct (map fst items) \<and> i < length items
         \<longrightarrow> accumulate ops k 1 (fst (items ! i)) items a = fadd ops a (fdiv ops (k + (int i + 1)))"
  proof (intro allI impI)
    fix items :: ranking and i a
    assume "distinct (map fst items) \<and> i < length items"
    then show "accumulate ops k 1 (fst (items ! i)) items a = fadd ops a (fdiv ops (k + (int i + 1)))"
      using accumulate_at [of items i ops k 1 a] by (simp add: add.commute add.left_commute)
  qed
  show "\<forall>c. rrf_score exact_ops k rankings c = exact_score k rankings c"
    by (simp add: rrf_score_exact)
  show "\<forall>c items. c \<notin> fst ` set items \<longrightarrow> rank_contrib k 1 c items = 0"
    by (simp add: rank_contrib_absent)
  show "\<forall>items i. distinct (map fst items) \<and> i < length items
           \<longrightarrow> rank_contrib k 1 (fst (items ! i)) items = 1 / of_int (k + (int i + 1))"
  proof (intro allI impI)
    fix items :: ranking and i
    assume "distinct (map fst items) \<and> i < length items"
    then show "rank_contrib k 1 (fst (items ! i)) items = 1 / of_int (k + (int i + 1))"
      using rank_contrib_at [of items i k 1] by (simp add: add.commute add.left_commute)
  qed
  show "\<forall>c ds ss. rrf_provenance [(''dense'', ds), (''sparse'', ss)] c
         = (if c \<in> fst ` set ds then Some ''dense''
            else if c \<in> fst ` set ss then Some ''sparse'' else None)"
    by (simp add: rrf_provenance_def)
qed

section \<open>The hybrid retriever and the orchestrator\<close>

lemma all_ids_branches:
  "all_ids (branch_rankings D S) = map chunk_id (D @ S)"
  by (simp add: all_ids_def branch_rankings_def comp_def)

lemma retrieve_char:
  assumes ok: "retrieve ops dense sparse k q top_k = Inr hits"
    and D: "D = dense q (top_k * 2)" and S: "S = sparse q (top_k * 4)"
  shows "\<exists>ranked. hits = py_take top_k ranked
      \<and> distinct (map chunk_id ranked)
      \<and> set (map chunk_id ranked) = set (map chunk_id (D @ S))
      \<and> (\<forall>h \<in> set ranked. \<exists>h0. find (\<lambda>x. chunk_id x = chunk_id h) (rev (D @ S)) = Some h0
              \<and> h = h0\<lparr>score := fused_score ops k D S (chunk_id h)\<rparr>)
      \<and> sorted_wrt (tie_order (map chunk_id (D @ S))) ranked"
proof -
  define rk where "rk = branch_rankings D S"
  define ids where "ids = map chunk_id (D @ S)"
  have unfold: "retrieve ops dense sparse k q top_k
          = (case reciprocal_rank_fusion ops rk k of
               Inl e \<Rightarrow> Inl e
             | Inr fused \<Rightarrow>
                 (case enrich (dict_of (map (\<lambda>h. (chunk_id h, h)) (D @ S)))
                         (dict_of (map (\<lambda>(cid, s, source). (cid, s)) fused)) of
                    Inl e \<Rightarrow> Inl e
                  | Inr items \<Rightarrow> Inr (py_take top_k (py_sorted_desc score items))))"
    by (simp only: retrieve_def Let_def D [symmetric] S [symmetric] rk_def branch_rankings_def)
  obtain fused0 where r0: "reciprocal_rank_fusion ops rk k = Inr fused0"
    using ok unfolding unfold by (cases "reciprocal_rank_fusion ops rk k") simp_all
  obtain acc where r1: "fused0 = py_sorted_desc (\<lambda>(cid, s, source). s)
                    (map (\<lambda>(c, s). (c, s, the (rrf_provenance rk c))) acc)"
    and keys: "map fst acc = add_keys [] (all_ids rk)"
    and vals: "\<forall>(c, s) \<in> set acc. s = rrf_score ops k rk c \<and> rrf_provenance rk c \<noteq> None"
    using rrf_char [OF r0] by blast
  have r: "reciprocal_rank_fusion ops rk k
            = Inr (py_sorted_desc (\<lambda>(cid, s, source). s)
                    (map (\<lambda>(c, s). (c, s, the (rrf_provenance rk c))) acc))"
    using r0 r1 by simp
  define items where "items = map (\<lambda>(c, s). (c, s, the (rrf_provenance rk c))) acc"
  define fused where "fused = py_sorted_desc (\<lambda>(cid, s, source). s) items"
  define fm where "fm = map (\<lambda>(cid, s, source). (cid, s)) fused"
  define en where "en = dict_of (map (\<lambda>h. (chunk_id h, h)) (D @ S))"
  define G where "G = (\<lambda>(c, s). (the (map_of en c))\<lparr>score := s\<rparr>)"
  define items2 where "items2 = map G fm"
  define ranked where "ranked = py_sorted_desc score items2"
  note ak = add_keys_from_empty [of ids]
  have keys': "map fst acc = add_keys [] ids"
    using keys by (simp only: rk_def ids_def all_ids_branches)
  have fst_items: "map fst items = map fst acc"
    unfolding items_def by (induction acc) auto
  have fst_fm: "map fst fm = map fst fused"
    unfolding fm_def by (induction fused) auto
  have d_fused: "distinct (map fst fused)"
    using ak keys' unfolding fused_def by (simp only: py_sorted_desc_distinct fst_items)
  have set_fused: "set (map fst fused) = set ids"
  proof -
    have "set (map fst fused) = set (map fst items)"
      unfolding fused_def by (simp only: set_map py_sorted_desc_set)
    then show ?thesis using ak keys' by (simp only: fst_items)
  qed
  have fm: "dict_of fm = fm"
    using d_fused by (intro dict_of_distinct) (simp only: fst_fm)
  have en: "map_of en c = find (\<lambda>x. chunk_id x = c) (rev (D @ S))" for c
  proof -
    have "map_of en c = map_of (map (\<lambda>h. (chunk_id h, h)) (rev (D @ S))) c"
      unfolding en_def by (simp only: map_of_dict_of rev_map)
    then show ?thesis by (simp only: map_of_keyed)
  qed
  have en_present: "\<exists>h0. map_of en c = Some h0 \<and> chunk_id h0 = c" if "c \<in> set ids" for c
  proof -
    have "\<exists>x \<in> set (rev (D @ S)). chunk_id x = c"
      using that unfolding ids_def by auto
    then have "find (\<lambda>x. chunk_id x = c) (rev (D @ S)) \<noteq> None"
      by (simp only: find_None_iff) blast
    then obtain h0 where h0: "find (\<lambda>x. chunk_id x = c) (rev (D @ S)) = Some h0" by auto
    then have "chunk_id h0 = c" using find_SomeD [OF h0] by simp
    then show ?thesis using h0 en [of c] by simp
  qed
  have "\<forall>c \<in> fst ` set fm. map_of en c \<noteq> None"
  proof
    fix c assume "c \<in> fst ` set fm"
    then have "c \<in> set (map fst fm)" by simp
    then have "c \<in> set ids" using set_fused by (simp only: fst_fm)
    then show "map_of en c \<noteq> None" using en_present by fastforce
  qed
  then have "enrich en fm = Inr (map (\<lambda>(c, s). (the (map_of en c))\<lparr>score := s\<rparr>) fm)"
    by (rule enrich_total)
  then have enr: "enrich en (dict_of fm) = Inr items2"
    by (simp only: fm items2_def G_def)
  have "retrieve ops dense sparse k q top_k = Inr (py_take top_k ranked)"
  proof -
    have "retrieve ops dense sparse k q top_k
          = (case reciprocal_rank_fusion ops rk k of
               Inl e \<Rightarrow> Inl e
             | Inr fused \<Rightarrow>
                 (case enrich en (dict_of (map (\<lambda>(cid, s, source). (cid, s)) fused)) of
                    Inl e \<Rightarrow> Inl e
                  | Inr items \<Rightarrow> Inr (py_take top_k (py_sorted_desc score items))))"
      by (simp only: unfold en_def)
    also have "\<dots> = Inr (py_take top_k ranked)"
      using enr by (simp only: r items_def [symmetric] fused_def [symmetric] fm_def [symmetric]
          ranked_def sum.case)
    finally show ?thesis .
  qed
  then have ret: "hits = py_take top_k ranked" using ok by simp
  have fused_elem: "s = rrf_score ops k rk c \<and> c \<in> set ids" if "(c, s, p) \<in> set fused" for c s p
  proof -
    have "(c, s, p) \<in> set items" using that unfolding fused_def by (simp only: py_sorted_desc_set)
    then have cs: "(c, s) \<in> set acc" unfolding items_def by auto
    then have "c \<in> set (map fst acc)" by force
    then have "c \<in> set ids" using ak keys' by simp
    then show ?thesis using vals cs by auto
  qed
  have item2: "chunk_id (G (c, s)) = c \<and> score (G (c, s)) = s
        \<and> (\<exists>h0. find (\<lambda>x. chunk_id x = c) (rev (D @ S)) = Some h0 \<and> G (c, s) = h0\<lparr>score := s\<rparr>)"
    if cin: "c \<in> set ids" for c s
  proof -
    obtain h0 where "map_of en c = Some h0" and "chunk_id h0 = c"
      using en_present [OF cin] by blast
    then show ?thesis using en [of c] by (simp add: G_def)
  qed
  have fm_elem: "\<exists>c s p. x = (c, s) \<and> (c, s, p) \<in> set fused" if "x \<in> set fm" for x
    using that unfolding fm_def by auto
  have ids_items2: "map chunk_id items2 = map fst fm"
  proof -
    have "chunk_id (G x) = fst x" if xin: "x \<in> set fm" for x
    proof -
      obtain c s p where x: "x = (c, s)" and "(c, s, p) \<in> set fused"
        using fm_elem [OF xin] by blast
      then have "c \<in> set ids" using fused_elem by blast
      then show ?thesis using item2 [of c s] x by simp
    qed
    then show ?thesis unfolding items2_def by simp
  qed
  have d: "distinct (map chunk_id ranked)"
    using d_fused unfolding ranked_def by (simp only: py_sorted_desc_distinct ids_items2 fst_fm)
  have st: "set (map chunk_id ranked) = set ids"
  proof -
    have "set (map chunk_id ranked) = set (map chunk_id items2)"
      unfolding ranked_def by (simp only: set_map py_sorted_desc_set)
    then show ?thesis using set_fused by (simp only: ids_items2 fst_fm)
  qed
  have elems: "\<forall>h \<in> set ranked. \<exists>h0. find (\<lambda>x. chunk_id x = chunk_id h) (rev (D @ S)) = Some h0
              \<and> h = h0\<lparr>score := fused_score ops k D S (chunk_id h)\<rparr>"
  proof
    fix h assume "h \<in> set ranked"
    then have "h \<in> set items2" unfolding ranked_def by (simp only: py_sorted_desc_set)
    then obtain x where x: "x \<in> set fm" and h: "h = G x" unfolding items2_def by auto
    obtain c s p where xc: "x = (c, s)" and f: "(c, s, p) \<in> set fused"
      using fm_elem [OF x] by blast
    have cs: "s = rrf_score ops k rk c" "c \<in> set ids" using fused_elem f by blast+
    have "h = G (c, s)" using h xc by simp
    then show "\<exists>h0. find (\<lambda>x. chunk_id x = chunk_id h) (rev (D @ S)) = Some h0
              \<and> h = h0\<lparr>score := fused_score ops k D S (chunk_id h)\<rparr>"
      using item2 [OF cs(2), of s] cs(1) by (auto simp: fused_score_def rk_def)
  qed
  have o_acc: "sorted_wrt (\<lambda>a b. first_pos ids (fst a) < first_pos ids (fst b)) acc"
  proof -
    have "sorted_wrt (\<lambda>a b. first_pos ids a < first_pos ids b) (map fst acc)"
      using ak keys' by simp
    then show ?thesis by (simp only: sorted_wrt_map)
  qed
  have o_items: "sorted_wrt (\<lambda>a b. first_pos ids (fst a) < first_pos ids (fst b)) items"
    using o_acc unfolding items_def by (simp add: sorted_wrt_map case_prod_beta)
  have o_fused: "sorted_wrt (\<lambda>a b. fst (snd b) < fst (snd a)
        \<or> (fst (snd a) = fst (snd b) \<and> first_pos ids (fst a) < first_pos ids (fst b))) fused"
    using py_sorted_desc_lex [OF o_items, of "\<lambda>(cid, s, source). s"]
    unfolding fused_def by (simp add: case_prod_beta)
  have o_fm: "sorted_wrt (\<lambda>a b. snd b < snd a
        \<or> (snd a = snd b \<and> first_pos ids (fst a) < first_pos ids (fst b))) fm"
    using o_fused unfolding fm_def by (simp add: sorted_wrt_map case_prod_beta)
  have o_items2: "sorted_wrt (tie_order ids) items2"
  proof -
    have "sorted_wrt (\<lambda>x y. tie_order ids (G x) (G y)) fm"
    proof (rule sorted_wrt_mono_rel [OF _ o_fm])
      fix x y assume x: "x \<in> set fm" and y: "y \<in> set fm"
        and lt: "snd y < snd x \<or> (snd x = snd y \<and> first_pos ids (fst x) < first_pos ids (fst y))"
      obtain c s p where xc: "x = (c, s)" and fx: "(c, s, p) \<in> set fused"
        using fm_elem [OF x] by blast
      obtain c' s' p' where yc: "y = (c', s')" and fy: "(c', s', p') \<in> set fused"
        using fm_elem [OF y] by blast
      have "c \<in> set ids" "c' \<in> set ids" using fused_elem fx fy by blast+
      then have "chunk_id (G (c, s)) = c \<and> score (G (c, s)) = s"
        and "chunk_id (G (c', s')) = c' \<and> score (G (c', s')) = s'"
        using item2 by blast+
      then show "tie_order ids (G x) (G y)"
        using lt xc yc by (simp add: tie_order_def)
    qed
    then show ?thesis unfolding items2_def by (simp only: sorted_wrt_map)
  qed
  have o: "sorted_wrt (tie_order ids) ranked"
    unfolding ranked_def
  proof (rule sorted_wrt_mono_rel [OF _ py_sorted_desc_lex [OF o_items2, of score]])
    fix a b assume "score b < score a \<or> (score a = score b \<and> tie_order ids a b)"
    then show "tie_order ids a b" by (auto simp: tie_order_def)
  qed
  show ?thesis using ret d st elems o unfolding ids_def by blast
qed

lemma dict_of_keys: "fst ` set (dict_of kvs) = fst ` set kvs"
proof -
  have "c \<in> fst ` set (dict_of kvs) \<longleftrightarrow> c \<in> fst ` set kvs" for c
  proof -
    have "c \<in> fst ` set (dict_of kvs) \<longleftrightarrow> map_of (dict_of kvs) c \<noteq> None"
      by (simp add: map_of_eq_None_iff)
    also have "\<dots> \<longleftrightarrow> map_of (rev kvs) c \<noteq> None"
      by (simp only: map_of_dict_of)
    also have "\<dots> \<longleftrightarrow> c \<in> fst ` set kvs"
      by (simp add: map_of_eq_None_iff)
    finally show ?thesis .
  qed
  then show ?thesis by blast
qed

lemma fst_drop_source: "fst ` set (map (\<lambda>(cid, s, source). (cid, s)) fused) = fst ` set fused"
  by (induction fused) auto

lemma fst_keyed: "fst ` set (map (\<lambda>h. (f h, h)) xs) = f ` set xs"
  by (induction xs) auto

lemma retrieve_ok:
  assumes k: "0 \<le> k"
  shows "\<exists>hits. retrieve ops dense sparse k q top_k = Inr hits"
proof -
  define D where "D = dense q (top_k * 2)"
  define S where "S = sparse q (top_k * 4)"
  define rk where "rk = branch_rankings D S"
  define en where "en = dict_of (map (\<lambda>h. (chunk_id h, h)) (D @ S))"
  have unfold: "retrieve ops dense sparse k q top_k
          = (case reciprocal_rank_fusion ops rk k of
               Inl e \<Rightarrow> Inl e
             | Inr fused \<Rightarrow>
                 (case enrich en (dict_of (map (\<lambda>(cid, s, source). (cid, s)) fused)) of
                    Inl e \<Rightarrow> Inl e
                  | Inr items \<Rightarrow> Inr (py_take top_k (py_sorted_desc score items))))"
    by (simp only: retrieve_def Let_def D_def S_def rk_def en_def branch_rankings_def)
  obtain fused where r0: "reciprocal_rank_fusion ops rk k = Inr fused"
    using rrf_ok [OF k] by blast
  obtain acc where r1: "fused = py_sorted_desc (\<lambda>(cid, s, source). s)
                    (map (\<lambda>(c, s). (c, s, the (rrf_provenance rk c))) acc)"
    and keys: "map fst acc = add_keys [] (all_ids rk)"
    using rrf_char [OF r0] by blast
  define items where "items = map (\<lambda>(c, s). (c, s, the (rrf_provenance rk c))) acc"
  define fm where "fm = dict_of (map (\<lambda>(cid, s, source). (cid, s)) fused)"
  have fst_items: "map fst items = map fst acc"
    unfolding items_def by (induction acc) auto
  have "set (map fst fused) = set (map fst items)"
    by (simp only: r1 items_def [symmetric] set_map py_sorted_desc_set)
  then have "set (map fst fused) = set (all_ids rk)"
    using keys add_keys_from_empty [of "all_ids rk"] by (simp only: fst_items)
  then have ids: "fst ` set fused = chunk_id ` set (D @ S)"
    by (simp only: rk_def all_ids_branches set_map)
  have en_keys: "fst ` set en = chunk_id ` set (D @ S)"
    unfolding en_def by (simp only: dict_of_keys fst_keyed)
  have fm_keys: "fst ` set fm = fst ` set fused"
    unfolding fm_def by (simp only: dict_of_keys fst_drop_source)
  have "\<forall>c \<in> fst ` set fm. map_of en c \<noteq> None"
  proof
    fix c assume "c \<in> fst ` set fm"
    then have "c \<in> fst ` set en" by (simp only: fm_keys ids en_keys)
    then show "map_of en c \<noteq> None" by (simp only: map_of_eq_None_iff) simp
  qed
  then have "enrich en fm = Inr (map (\<lambda>(c, s). (the (map_of en c))\<lparr>score := s\<rparr>) fm)"
    by (rule enrich_total)
  then have "retrieve ops dense sparse k q top_k
     = Inr (py_take top_k (py_sorted_desc score (map (\<lambda>(c, s). (the (map_of en c))\<lparr>score := s\<rparr>) fm)))"
    by (simp only: unfold r0 fm_def [symmetric] sum.case)
  then show ?thesis by blast
qed

lemma retrieve_sorted:
  assumes "retrieve ops dense sparse k q top_k = Inr hits"
  shows "sorted_wrt (\<lambda>a b. score b \<le> score a) hits"
proof -
  obtain items where "hits = py_take top_k (py_sorted_desc score items)"
    using assms
    by (auto simp: retrieve_def Let_def split: sum.splits)
  moreover obtain m where "py_take top_k (py_sorted_desc score items) = take m (py_sorted_desc score items)"
    using py_take_prefix by blast
  ultimately show ?thesis
    using py_sorted_desc_descending [of score items] by simp
qed

lemma fallback_answer_contains:
  assumes "hits \<noteq> []"
  shows "\<exists>s. fallback_answer hits question = Inr s \<and> sublist question s
          \<and> sublist (chunk_id (hd hits)) s \<and> sublist (content (hd hits)) s"
proof -
  obtain best others where h: "hits = best # others" using assms by (cases hits) auto
  define s where "s = ''Answer synthesized without LLM due to configuration limits.'' @ [newline]
               @ ''Question: '' @ question @ [newline]
               @ ''Best match ('' @ chunk_id best @ ''): '' @ content best"
  have r: "fallback_answer hits question = Inr s"
    by (simp add: fallback_answer_def h s_def)
  have "s = (''Answer synthesized without LLM due to configuration limits.'' @ [newline]
               @ ''Question: '') @ question @ ([newline]
               @ ''Best match ('' @ chunk_id best @ ''): '' @ content best)"
    by (simp add: s_def)
  then have q: "sublist question s" unfolding sublist_def by blast
  have "s = (''Answer synthesized without LLM due to configuration limits.'' @ [newline]
               @ ''Question: '' @ question @ [newline]
               @ ''Best match ('') @ chunk_id best @ (''): '' @ content best)"
    by (simp add: s_def)
  then have c: "sublist (chunk_id best) s" unfolding sublist_def by blast
  have "s = (''Answer synthesized without LLM due to configuration limits.'' @ [newline]
               @ ''Question: '' @ question @ [newline]
               @ ''Best match ('' @ chunk_id best @ ''): '') @ content best @ []"
    by (simp add: s_def)
  then have t: "sublist (content best) s" unfolding sublist_def by blast
  show ?thesis using r q c t h by simp
qed

text \<open>
  C9. When the retriever returned a non-empty list of hits and no chain is configured, or
  invoking the chain raises, \<open>answer\<close> returns (it does not raise), the result is
  grounded, and its answer contains the question and the chunk identifier and content
  of the first hit, whose score no other returned hit exceeds.
\<close>

theorem extractive_fallback:
  assumes r: "retrieve ops dense sparse rrf_k question top_k = Inr hits"
    and ne: "hits \<noteq> []"
    and ch: "chain = None
             \<or> (\<exists>invoke e. chain = Some invoke \<and> invoke question (format_context fmt hits) = Inl e)"
  shows "\<exists>res. answer ops dense sparse rrf_k fmt chain elapsed question top_k audit_trail = Inr res
      \<and> grounded res
      \<and> sublist question (answer_text res)
      \<and> sublist (chunk_id (hd hits)) (answer_text res)
      \<and> sublist (content (hd hits)) (answer_text res)
      \<and> (\<forall>h \<in> set hits. score h \<le> score (hd hits))"
proof -
  obtain s where f: "fallback_answer hits question = Inr s" and q: "sublist question s"
    and c: "sublist (chunk_id (hd hits)) s" and t: "sublist (content (hd hits)) s"
    using fallback_answer_contains [OF ne] by blast
  have g: "generate_answer fmt chain question hits = Inr s"
    using ch ne f by (auto simp: generate_answer_def)
  have a: "answer ops dense sparse rrf_k fmt chain elapsed question top_k audit_trail
           = Inr \<lparr>answer_text = s, references = (if audit_trail then hits else []),
                  grounded = True, latency_ms = elapsed\<rparr>"
    using r g ne by (simp add: answer_def)
  obtain best others where h: "hits = best # others" using ne by (cases hits) auto
  have "\<forall>h \<in> set hits. score h \<le> score (hd hits)"
    using retrieve_sorted [OF r] h by auto
  then show ?thesis using a q c t by simp
qed

text \<open>
  C4. A hit that \<open>retrieve\<close> returns whose chunk identifier occurs in the sparse branch's
  list is the sparse branch's hit for that identifier (the last one, should the list
  name it twice), with only \<open>score\<close> replaced by the fused score: \<open>content\<close>,
  \<open>level\<close>, \<open>metadata\<close> and \<open>document_id\<close> are the sparse hit's, also when the dense
  list holds the identifier too.
\<close>

theorem duplicate_takes_sparse_attributes:
  assumes r: "retrieve ops dense sparse k q top_k = Inr hits"
    and h: "h \<in> set hits"
  shows "(\<forall>s. find (\<lambda>x. chunk_id x = chunk_id h) (rev (sparse q (top_k * 4))) = Some s \<longrightarrow>
            h = s\<lparr>score := fused_score ops k (dense q (top_k * 2)) (sparse q (top_k * 4)) (chunk_id h)\<rparr>)
      \<and> (\<forall>s \<in> set (sparse q (top_k * 4)).
            distinct (map chunk_id (sparse q (top_k * 4))) \<and> chunk_id s = chunk_id h \<longrightarrow>
              content h = content s \<and> level h = level s \<and> metadata h = metadata s
            \<and> document_id h = document_id s
            \<and> score h = fused_score ops k (dense q (top_k * 2)) (sparse q (top_k * 4)) (chunk_id h))"
proof -
  define D where "D = dense q (top_k * 2)"
  define S where "S = sparse q (top_k * 4)"
  obtain ranked where hits: "hits = py_take top_k ranked"
    and elems: "\<forall>h \<in> set ranked. \<exists>h0. find (\<lambda>x. chunk_id x = chunk_id h) (rev (D @ S)) = Some h0
              \<and> h = h0\<lparr>score := fused_score ops k D S (chunk_id h)\<rparr>"
    using retrieve_char [OF r D_def S_def] by blast
  obtain m where "py_take top_k ranked = take m ranked" using py_take_prefix by blast
  then have "h \<in> set ranked" using h hits by (metis in_set_takeD)
  then obtain h0 where h0: "find (\<lambda>x. chunk_id x = chunk_id h) (rev (D @ S)) = Some h0"
    and hh: "h = h0\<lparr>score := fused_score ops k D S (chunk_id h)\<rparr>"
    using elems by blast
  have last: "h = s\<lparr>score := fused_score ops k D S (chunk_id h)\<rparr>"
    if s: "find (\<lambda>x. chunk_id x = chunk_id h) (rev S) = Some s" for s
  proof -
    have "find (\<lambda>x. chunk_id x = chunk_id h) (rev (D @ S)) = Some s"
      using s by (simp add: find_append)
    then show ?thesis using h0 hh by simp
  qed
  have uniq: "content h = content s \<and> level h = level s \<and> metadata h = metadata s
            \<and> document_id h = document_id s \<and> score h = fused_score ops k D S (chunk_id h)"
    if s: "s \<in> set S" and d: "distinct (map chunk_id S) \<and> chunk_id s = chunk_id h" for s
  proof -
    have "find (\<lambda>x. chunk_id x = chunk_id s) (rev S) = Some s"
      using find_last_distinct [of chunk_id S s] s d by simp
    then have e: "h = s\<lparr>score := fused_score ops k D S (chunk_id h)\<rparr>" using last d by simp
    define v where "v = fused_score ops k D S (chunk_id h)"
    have "h = s\<lparr>score := v\<rparr>" using e by (simp only: v_def)
    then have "content h = content s \<and> level h = level s \<and> metadata h = metadata s
            \<and> document_id h = document_id s \<and> score h = v"
      by simp
    then show ?thesis by (simp only: v_def)
  qed
  show ?thesis using last uniq unfolding D_def S_def by blast
qed

text \<open>
  C10. In every float arithmetic \<open>retrieve\<close> returns for every \<open>k \<ge> 0\<close>; its result
  depends on the two branches only through the lists they return for the query; and of
  two returned hits whose fused scores are equal floats, the one whose chunk identifier
  occurs first in the dense list followed by the sparse list comes first. The scores
  compared are those the program computed: two sums that are equal before rounding may
  be different floats, and then the greater float comes first.
\<close>

theorem retrieve_tie_order:
  "(0 \<le> k \<longrightarrow> (\<exists>hits. retrieve ops dense sparse k q top_k = Inr hits))
   \<and> (\<forall>dense' sparse'. dense' q (top_k * 2) = dense q (top_k * 2)
         \<and> sparse' q (top_k * 4) = sparse q (top_k * 4)
         \<longrightarrow> retrieve ops dense' sparse' k q top_k = retrieve ops dense sparse k q top_k)
   \<and> (\<forall>hits i j. retrieve ops dense sparse k q top_k = Inr hits \<and> i < j \<and> j < length hits
         \<and> score (hits ! i) = score (hits ! j)
         \<longrightarrow> first_pos (map chunk_id (dense q (top_k * 2) @ sparse q (top_k * 4))) (chunk_id (hits ! i))
           < first_pos (map chunk_id (dense q (top_k * 2) @ sparse q (top_k * 4))) (chunk_id (hits ! j)))"
proof (intro conjI allI impI)
  assume "0 \<le> k"
  then show "\<exists>hits. retrieve ops dense sparse k q top_k = Inr hits" by (rule retrieve_ok)
next
  fix dense' sparse'
  assume "dense' q (top_k * 2) = dense q (top_k * 2) \<and> sparse' q (top_k * 4) = sparse q (top_k * 4)"
  then show "retrieve ops dense' sparse' k q top_k = retrieve ops dense sparse k q top_k"
    by (simp add: retrieve_def)
next
  fix hits i j
  define D where "D = dense q (top_k * 2)"
  define S where "S = sparse q (top_k * 4)"
  assume a: "retrieve ops dense sparse k q top_k = Inr hits \<and> i < j \<and> j < length hits
         \<and> score (hits ! i) = score (hits ! j)"
  then have r: "retrieve ops dense sparse k q top_k = Inr hits" by simp
  obtain ranked where hits: "hits = py_take top_k ranked"
    and o: "sorted_wrt (tie_order (map chunk_id (D @ S))) ranked"
    using retrieve_char [OF r D_def S_def] by blast
  obtain m where "py_take top_k ranked = take m ranked" using py_take_prefix by blast
  then have "sorted_wrt (tie_order (map chunk_id (D @ S))) hits"
    using o hits by simp
  then have "tie_order (map chunk_id (D @ S)) (hits ! i) (hits ! j)"
    using a by (simp add: sorted_wrt_iff_nth_less)
  then show "first_pos (map chunk_id (dense q (top_k * 2) @ sparse q (top_k * 4))) (chunk_id (hits ! i))
           < first_pos (map chunk_id (dense q (top_k * 2) @ sparse q (top_k * 4))) (chunk_id (hits ! j))"
    using a unfolding D_def S_def tie_order_def by simp
qed

section \<open>The fusion on sample data\<close>

lemma double_quotients:
  "double_div 10 = 3602879701896397 / 36028797018963968"
  "double_div 11 = 3275345183542179 / 36028797018963968"
  "double_div 12 = 6004799503160661 / 72057594037927936"
  "double_div 13 = 1385722962267845 / 18014398509481984"
  "double_div 14 = 2573485501354569 / 36028797018963968"
  "double_div 15 = 4803839602528529 / 72057594037927936"
  "double_div 61 = 4725088133634619 / 288230376151711744"
  "double_div 62 = 1162219258676257 / 72057594037927936"
  "double_div 63 = 285942833483841 / 18014398509481984"
  by code_simp+

lemma double_sums_from_zero:
  "double_add 0 (3602879701896397 / 36028797018963968) = 3602879701896397 / 36028797018963968"
  "double_add 0 (3275345183542179 / 36028797018963968) = 3275345183542179 / 36028797018963968"
  "double_add 0 (6004799503160661 / 72057594037927936) = 6004799503160661 / 72057594037927936"
  "double_add 0 (1385722962267845 / 18014398509481984) = 1385722962267845 / 18014398509481984"
  "double_add 0 (2573485501354569 / 36028797018963968) = 2573485501354569 / 36028797018963968"
  "double_add 0 (4803839602528529 / 72057594037927936) = 4803839602528529 / 72057594037927936"
  "double_add 0 (4725088133634619 / 288230376151711744) = 4725088133634619 / 288230376151711744"
  "double_add 0 (1162219258676257 / 72057594037927936) = 1162219258676257 / 72057594037927936"
  by code_simp+

lemma double_sums:
  "double_add (1162219258676257 / 72057594037927936) (4725088133634619 / 288230376151711744)
   = 146468205755307 / 4503599627370496"
  "double_add (4725088133634619 / 288230376151711744) (285942833483841 / 18014398509481984)
   = 2325043367344019 / 72057594037927936"
  "double_add (4725088133634619 / 288230376151711744) (1162219258676257 / 72057594037927936)
   = 146468205755307 / 4503599627370496"
  "double_add (4803839602528529 / 72057594037927936) (3602879701896397 / 36028797018963968)
   = 3002399751580331 / 18014398509481984"
  "double_add (6004799503160661 / 72057594037927936) (6004799503160661 / 72057594037927936)
   = 6004799503160661 / 36028797018963968"
  by code_simp+

lemmas eval_defs = retrieve_def reciprocal_rank_fusion_def py_sorted_desc_def py_take_def
  dict_of_def setdefault_def example_hit_def Let_def double_ops_def exact_ops_def
  double_quotients double_sums_from_zero double_sums

lemma example_fusion:
  "reciprocal_rank_fusion double_ops example_rankings 60
   = Inr [(''b'', 146468205755307 / 4503599627370496, ''dense''),
          (''a'', 2325043367344019 / 72057594037927936, ''dense''),
          (''c'', 1162219258676257 / 72057594037927936, ''sparse'')]"
  by (simp add: eval_defs example_rankings_def)

lemma example_retrieve:
  "retrieve double_ops example_dense example_sparse 60 ''q'' 3
   = Inr [example_hit ''id-a'' ''Alpha2'' (146468205755307 / 4503599627370496),
          example_hit ''id-c'' ''Gamma'' (4725088133634619 / 288230376151711744),
          example_hit ''id-b'' ''Beta'' (1162219258676257 / 72057594037927936)]"
  by (simp add: eval_defs example_dense_def example_sparse_def)

lemma disjoint_retrieve:
  "retrieve double_ops example_dense disjoint_sparse 60 ''q'' 4
   = Inr [example_hit ''id-a'' ''Alpha'' (4725088133634619 / 288230376151711744),
          example_hit ''id-c'' ''Gamma'' (4725088133634619 / 288230376151711744),
          example_hit ''id-b'' ''Beta'' (1162219258676257 / 72057594037927936),
          example_hit ''id-d'' ''Delta'' (1162219258676257 / 72057594037927936)]"
  by (simp add: eval_defs example_dense_def disjoint_sparse_def)

text \<open>
  Rounding decides the order of \<open>x\<close> and \<open>y\<close>: in floats \<open>x\<close> has the greater score and
  comes first, although \<open>y\<close> occurs first in the lists; without rounding the two scores
  are equal and \<open>y\<close> comes first.
\<close>

lemma rounding_retrieve:
  "retrieve double_ops rounding_dense rounding_sparse 9 ''q'' 3
   = Inr [example_hit ''x'' ''X'' (3002399751580331 / 18014398509481984),
          example_hit ''y'' ''Y'' (6004799503160661 / 36028797018963968),
          example_hit ''d1'' ''D1'' (3602879701896397 / 36028797018963968)]"
  by (simp add: eval_defs rounding_dense_def rounding_sparse_def)

lemma rounding_retrieve_exact:
  "retrieve exact_ops rounding_dense rounding_sparse 9 ''q'' 3
   = Inr [example_hit ''y'' ''Y'' (1 / 6), example_hit ''x'' ''X'' (1 / 6),
          example_hit ''d1'' ''D1'' (1 / 10)]"
  by (simp add: eval_defs rounding_dense_def rounding_sparse_def)

theorem rrf_scores_provenance_order_witness:
  "reciprocal_rank_fusion double_ops example_rankings 60
     = Inr [(''b'', 146468205755307 / 4503599627370496, ''dense''),
            (''a'', 2325043367344019 / 72057594037927936, ''dense''),
            (''c'', 1162219258676257 / 72057594037927936, ''sparse'')]
   \<and> rrf_score double_ops 60 example_rankings ''b'' = 146468205755307 / 4503599627370496
   \<and> rrf_provenance example_rankings ''b'' = Some ''dense''
   \<and> accumulate double_ops 60 1 ''b'' [(''a'', 9 / 10), (''b'', 1 / 2)] 0
       = 1162219258676257 / 72057594037927936
   \<and> accumulate double_ops 60 1 ''c'' [(''a'', 9 / 10), (''b'', 1 / 2)] 0 = 0
   \<and> rrf_score exact_ops 60 example_rankings ''b'' = 123 / 3782
   \<and> rank_contrib 60 1 ''b'' [(''a'', 9 / 10), (''b'', 1 / 2)] = 1 / 62
   \<and> rank_contrib 60 1 ''c'' [(''a'', 9 / 10), (''b'', 1 / 2)] = 0"
proof -
  note t = rrf_scores_provenance_order [of 60 double_ops example_rankings]
  note u = rrf_scores_provenance_order [of 60 exact_ops example_rankings]
  let ?dense = "[(''a'', 9 / 10 :: rat), (''b'', 1 / 2)]"
  have "\<exists>fused. reciprocal_rank_fusion double_ops example_rankings 60 = Inr fused"
    using t [THEN conjunct1] by simp
  have "\<forall>(c, s, p) \<in> set [(''b'', 146468205755307 / 4503599627370496 :: rat, ''dense''),
                            (''a'', 2325043367344019 / 72057594037927936, ''dense''),
                            (''c'', 1162219258676257 / 72057594037927936, ''sparse'')].
          s = rrf_score double_ops 60 example_rankings c \<and> rrf_provenance example_rankings c = Some p"
    using t [THEN conjunct2, THEN conjunct1, rule_format, OF example_fusion] by blast
  then have b: "rrf_score double_ops 60 example_rankings ''b'' = 146468205755307 / 4503599627370496
      \<and> rrf_provenance example_rankings ''b'' = Some ''dense''"
    by simp
  have two: "distinct (map fst ?dense) \<and> 1 < length ?dense"
    by simp
  have absent: "''c'' \<notin> fst ` set ?dense" by simp
  have "accumulate double_ops 60 1 (fst (?dense ! 1)) ?dense 0
        = fadd double_ops 0 (fdiv double_ops (60 + (int 1 + 1)))"
    using t [THEN conjunct2, THEN conjunct2, THEN conjunct2, THEN conjunct1, rule_format,
        of ?dense 1 0] two
    by blast
  then have a: "accumulate double_ops 60 1 ''b'' ?dense 0 = 1162219258676257 / 72057594037927936"
    by (simp add: double_ops_def double_quotients double_sums_from_zero)
  have a0: "accumulate double_ops 60 1 ''c'' ?dense 0 = 0"
    using t [THEN conjunct2, THEN conjunct2, THEN conjunct1, rule_format, of "''c''" ?dense 0] absent
    by blast
  have "rrf_score exact_ops 60 example_rankings ''b'' = exact_score 60 example_rankings ''b''"
    using u [THEN conjunct2, THEN conjunct2, THEN conjunct2, THEN conjunct2, THEN conjunct1,
        rule_format, of "''b''"] .
  then have e: "rrf_score exact_ops 60 example_rankings ''b'' = 123 / 3782"
    by (simp add: exact_score_def example_rankings_def)
  have "rank_contrib 60 1 (fst (?dense ! 1)) ?dense = 1 / of_int (60 + (int 1 + 1))"
    using t [THEN conjunct2, THEN conjunct2, THEN conjunct2, THEN conjunct2, THEN conjunct2,
        THEN conjunct2, THEN conjunct1, rule_format, of ?dense 1] two
    by blast
  then have r: "rank_contrib 60 1 ''b'' ?dense = 1 / 62"
    by simp
  have z: "rank_contrib 60 1 ''c'' ?dense = 0"
    using t [THEN conjunct2, THEN conjunct2, THEN conjunct2, THEN conjunct2, THEN conjunct2,
        THEN conjunct1, rule_format, of "''c''" ?dense] absent
    by blast
  show ?thesis using example_fusion b a a0 e r z by blast
qed

theorem duplicate_takes_sparse_attributes_witness:
  "retrieve double_ops example_dense example_sparse 60 ''q'' 3
     = Inr [example_hit ''id-a'' ''Alpha2'' (146468205755307 / 4503599627370496),
            example_hit ''id-c'' ''Gamma'' (4725088133634619 / 288230376151711744),
            example_hit ''id-b'' ''Beta'' (1162219258676257 / 72057594037927936)]
   \<and> content (example_hit ''id-a'' ''Alpha2'' (146468205755307 / 4503599627370496))
       = content (example_hit ''id-a'' ''Alpha2'' 2)
   \<and> fused_score double_ops 60 (example_dense ''q'' (3 * 2)) (example_sparse ''q'' (3 * 4)) ''id-a''
       = 146468205755307 / 4503599627370496"
proof -
  define h where "h = example_hit ''id-a'' ''Alpha2'' (146468205755307 / 4503599627370496)"
  define s where "s = example_hit ''id-a'' ''Alpha2'' 2"
  have hin: "h \<in> set [example_hit ''id-a'' ''Alpha2'' (146468205755307 / 4503599627370496),
          example_hit ''id-c'' ''Gamma'' (4725088133634619 / 288230376151711744),
          example_hit ''id-b'' ''Beta'' (1162219258676257 / 72057594037927936)]"
    by (simp add: h_def)
  note t = duplicate_takes_sparse_attributes [OF example_retrieve hin]
  have sin: "s \<in> set (example_sparse ''q'' (3 * 4))"
    by (simp add: s_def example_sparse_def)
  have d: "distinct (map chunk_id (example_sparse ''q'' (3 * 4))) \<and> chunk_id s = chunk_id h"
    by (simp add: s_def h_def example_sparse_def example_hit_def)
  have "content h = content s
      \<and> score h = fused_score double_ops 60 (example_dense ''q'' (3 * 2)) (example_sparse ''q'' (3 * 4)) (chunk_id h)"
    using t [THEN conjunct2, rule_format, OF sin d] by blast
  moreover have "chunk_id h = ''id-a''" and "score h = 146468205755307 / 4503599627370496"
    by (simp_all add: h_def example_hit_def)
  ultimately show ?thesis using example_retrieve by (simp add: h_def s_def)
qed

theorem extractive_fallback_witness:
  "\<exists>res. answer double_ops example_dense example_sparse 60 (\<lambda>r. ''0.0000'') None 5 ''Why?'' 3 True
            = Inr res
      \<and> grounded res \<and> sublist ''Why?'' (answer_text res)
      \<and> sublist ''id-a'' (answer_text res) \<and> sublist ''Alpha2'' (answer_text res)"
proof -
  let ?hits = "[example_hit ''id-a'' ''Alpha2'' (146468205755307 / 4503599627370496),
          example_hit ''id-c'' ''Gamma'' (4725088133634619 / 288230376151711744),
          example_hit ''id-b'' ''Beta'' (1162219258676257 / 72057594037927936)]"
  have r: "retrieve double_ops example_dense example_sparse 60 ''Why?'' 3 = Inr ?hits"
    using example_retrieve by (simp add: retrieve_def example_dense_def example_sparse_def)
  have ne: "?hits \<noteq> []" by simp
  have ch: "(None :: (string \<Rightarrow> string \<Rightarrow> llm_error + string) option) = None
             \<or> (\<exists>invoke e. None = Some invoke \<and> invoke ''Why?'' (format_context (\<lambda>r. ''0.0000'') ?hits) = Inl e)"
    by simp
  have "chunk_id (hd ?hits) = ''id-a''" and "content (hd ?hits) = ''Alpha2''"
    by (simp_all add: example_hit_def)
  then show ?thesis
    using extractive_fallback [OF r ne ch, of 5 True] by auto
qed

theorem retrieve_tie_order_witness:
  "retrieve double_ops example_dense disjoint_sparse 60 ''q'' 4
     = Inr [example_hit ''id-a'' ''Alpha'' (4725088133634619 / 288230376151711744),
            example_hit ''id-c'' ''Gamma'' (4725088133634619 / 288230376151711744),
            example_hit ''id-b'' ''Beta'' (1162219258676257 / 72057594037927936),
            example_hit ''id-d'' ''Delta'' (1162219258676257 / 72057594037927936)]
   \<and> first_pos (map chunk_id (example_dense ''q'' (4 * 2) @ disjoint_sparse ''q'' (4 * 4))) ''id-a''
     < first_pos (map chunk_id (example_dense ''q'' (4 * 2) @ disjoint_sparse ''q'' (4 * 4))) ''id-c''
   \<and> first_pos (map chunk_id (example_dense ''q'' (4 * 2) @ disjoint_sparse ''q'' (4 * 4))) ''id-b''
     < first_pos (map chunk_id (example_dense ''q'' (4 * 2) @ disjoint_sparse ''q'' (4 * 4))) ''id-d''
   \<and> retrieve double_ops rounding_dense rounding_sparse 9 ''q'' 3
     = Inr [example_hit ''x'' ''X'' (3002399751580331 / 18014398509481984),
            example_hit ''y'' ''Y'' (6004799503160661 / 36028797018963968),
            example_hit ''d1'' ''D1'' (3602879701896397 / 36028797018963968)]"
proof -
  let ?hits = "[example_hit ''id-a'' ''Alpha'' (4725088133634619 / 288230376151711744),
            example_hit ''id-c'' ''Gamma'' (4725088133634619 / 288230376151711744),
            example_hit ''id-b'' ''Beta'' (1162219258676257 / 72057594037927936),
            example_hit ''id-d'' ''Delta'' (1162219258676257 / 72057594037927936)]"
  let ?ids = "map chunk_id (example_dense ''q'' (4 * 2) @ disjoint_sparse ''q'' (4 * 4))"
  note t = retrieve_tie_order [of 60 double_ops example_dense disjoint_sparse "''q''" 4]
  have p: "retrieve double_ops example_dense disjoint_sparse 60 ''q'' 4 = Inr ?hits \<and> (0::nat) < 1
         \<and> 1 < length ?hits \<and> score (?hits ! 0) = score (?hits ! 1)"
    using disjoint_retrieve by (simp add: example_hit_def)
  have p2: "retrieve double_ops example_dense disjoint_sparse 60 ''q'' 4 = Inr ?hits \<and> (2::nat) < 3
         \<and> 3 < length ?hits \<and> score (?hits ! 2) = score (?hits ! 3)"
    using disjoint_retrieve by (simp add: example_hit_def)
  have "first_pos ?ids (chunk_id (?hits ! 0)) < first_pos ?ids (chunk_id (?hits ! 1))"
    using t [THEN conjunct2, THEN conjunct2, rule_format, OF p] .
  then have a: "first_pos ?ids ''id-a'' < first_pos ?ids ''id-c''"
    by (simp add: example_hit_def)
  have "first_pos ?ids (chunk_id (?hits ! 2)) < first_pos ?ids (chunk_id (?hits ! 3))"
    using t [THEN conjunct2, THEN conjunct2, rule_format, OF p2] .
  then have b: "first_pos ?ids ''id-b'' < first_pos ?ids ''id-d''"
    by (simp add: example_hit_def)
  show ?thesis using disjoint_retrieve rounding_retrieve a b by blast
qed

section \<open>Re-ingestion draws fresh chunk identifiers\<close>

lemma ids_from_append: "ids_from src n (j + k) = ids_from src n j @ ids_from src (n + j) k"
  by (induction j arbitrary: n) simp_all

lemma length_ids_from: "length (ids_from src n k) = k"
  by (induction k arbitrary: n) simp_all

lemma ids_from_nth: "i < k \<Longrightarrow> ids_from src n k ! i = src (n + i)"
proof (induction k arbitrary: n i)
  case 0
  then show ?case by simp
next
  case (Suc k)
  show ?case
  proof (cases i)
    case 0
    then show ?thesis by simp
  next
    case (Suc j)
    then have "j < k" using Suc.prems by simp
    then have "ids_from src (Suc n) k ! j = src (Suc n + j)" by (rule Suc.IH)
    then show ?thesis using Suc by simp
  qed
qed

lemma set_ids_from: "set (ids_from src n k) = src ` {n..<n + k}"
proof -
  have "set (ids_from src n k) = {ids_from src n k ! i | i. i < k}"
    using set_conv_nth [of "ids_from src n k"] by (simp add: length_ids_from)
  also have "\<dots> = {src (n + i) | i. i < k}" using ids_from_nth by metis
  also have "\<dots> = src ` {n..<n + k}"
  proof (intro set_eqI iffI)
    fix x assume "x \<in> {src (n + i) | i. i < k}"
    then obtain i where "x = src (n + i)" "i < k" by blast
    then show "x \<in> src ` {n..<n + k}" by simp
  next
    fix x assume "x \<in> src ` {n..<n + k}"
    then obtain m where m: "x = src m" "n \<le> m" "m < n + k" by auto
    then have "x = src (n + (m - n))" "m - n < k" by simp_all
    then show "x \<in> {src (n + i) | i. i < k}" by blast
  qed
  finally show ?thesis .
qed

lemma paragraph_chunks_ids:
  "snd (paragraph_chunks src n doc parent md ps) = n + length ps
   \<and> length (fst (paragraph_chunks src n doc parent md ps)) = length ps
   \<and> map chunk_id (fst (paragraph_chunks src n doc parent md ps)) = ids_from src n (length ps)"
proof (induction ps arbitrary: n)
  case Nil
  show ?case by simp
next
  case (Cons p ps)
  show ?case using Cons [of "Suc n"] by (simp add: uuid4_def split_beta)
qed

lemma paragraph_chunks_shape:
  "list_all2 same_text (fst (paragraph_chunks src n doc parent md ps))
                       (fst (paragraph_chunks src' n' doc parent' md ps))"
proof (induction ps arbitrary: n n')
  case Nil
  show ?case by simp
next
  case (Cons p ps)
  show ?case using Cons [of "Suc n" "Suc n'"] by (simp add: uuid4_def split_beta same_text_def)
qed

lemma section_chunks_step:
  "fst (section_chunks s m doc t md ((heading, body) # secs))
     = fst (make_chunk s m doc (Some t) ''section'' heading md)
       # fst (paragraph_chunks s (Suc m) doc (s m) md (stripped_lines body))
       @ fst (section_chunks s (Suc m + length (stripped_lines body)) doc t md secs)
   \<and> snd (section_chunks s m doc t md ((heading, body) # secs))
     = snd (section_chunks s (Suc m + length (stripped_lines body)) doc t md secs)"
  using paragraph_chunks_ids [of s "Suc m" doc "s m" md "stripped_lines body"]
  by (simp add: make_chunk_def uuid4_def split_paragraphs_def split_beta)

lemma section_chunks_ids:
  "snd (section_chunks src n doc tid md secs) = n + length (fst (section_chunks src n doc tid md secs))
   \<and> map chunk_id (fst (section_chunks src n doc tid md secs))
       = ids_from src n (length (fst (section_chunks src n doc tid md secs)))"
proof (induction secs arbitrary: n)
  case Nil
  show ?case by simp
next
  case (Cons sec secs)
  obtain heading body where sec: "sec = (heading, body)" by (cases sec)
  define k where "k = length (stripped_lines body)"
  define pars where "pars = fst (paragraph_chunks src (Suc n) doc (src n) md (stripped_lines body))"
  define rest where "rest = fst (section_chunks src (Suc n + k) doc tid md secs)"
  define l where "l = length rest"
  have par: "length pars = k" "map chunk_id pars = ids_from src (Suc n) k"
    using paragraph_chunks_ids [of src "Suc n" doc "src n" md "stripped_lines body"]
    by (simp_all add: k_def pars_def)
  have ih: "snd (section_chunks src (Suc n + k) doc tid md secs) = Suc n + k + l"
    "map chunk_id rest = ids_from src (Suc n + k) l"
    using Cons [of "Suc n + k"] by (simp_all add: rest_def l_def)
  have f: "fst (section_chunks src n doc tid md (sec # secs))
           = fst (make_chunk src n doc (Some tid) ''section'' heading md) # pars @ rest"
    and s: "snd (section_chunks src n doc tid md (sec # secs)) = Suc n + k + l"
    using section_chunks_step [of src n doc tid md heading body secs] ih(1)
    by (simp_all only: sec k_def [symmetric] pars_def [symmetric] rest_def [symmetric])
  have len: "length (fst (section_chunks src n doc tid md (sec # secs))) = Suc (k + l)"
    using par by (simp add: f l_def)
  have "ids_from src n (Suc (k + l)) = src n # ids_from src (Suc n) k @ ids_from src (Suc n + k) l"
    by (simp add: ids_from_append)
  moreover have "map chunk_id (fst (section_chunks src n doc tid md (sec # secs)))
        = src n # map chunk_id pars @ map chunk_id rest"
    by (simp add: f make_chunk_def uuid4_def)
  ultimately have "map chunk_id (fst (section_chunks src n doc tid md (sec # secs)))
        = ids_from src n (Suc (k + l))"
    by (simp only: par ih)
  then show ?case using s by (simp only: len) simp
qed

lemma section_chunks_shape:
  "list_all2 same_text (fst (section_chunks src n doc tid md secs))
                       (fst (section_chunks src' n' doc tid' md secs))"
proof (induction secs arbitrary: n n')
  case Nil
  show ?case by simp
next
  case (Cons sec secs)
  obtain heading body where sec: "sec = (heading, body)" by (cases sec)
  have "same_text (fst (make_chunk src n doc (Some tid) ''section'' heading md))
                  (fst (make_chunk src' n' doc (Some tid') ''section'' heading md))"
    by (simp add: make_chunk_def uuid4_def same_text_def)
  moreover have "list_all2 same_text
       (fst (paragraph_chunks src (Suc n) doc (src n) md (stripped_lines body)))
       (fst (paragraph_chunks src' (Suc n') doc (src' n') md (stripped_lines body)))"
    by (rule paragraph_chunks_shape)
  moreover have "list_all2 same_text
       (fst (section_chunks src (Suc n + length (stripped_lines body)) doc tid md secs))
       (fst (section_chunks src' (Suc n' + length (stripped_lines body)) doc tid' md secs))"
    by (rule Cons)
  ultimately show ?case
    using section_chunks_step [of src n doc tid md heading body secs]
      section_chunks_step [of src' n' doc tid' md heading body secs]
    by (simp only: sec list_all2_Cons list_all2_appendI simp_thms)
qed

lemma chunk_document_step:
  "py_strip text \<noteq> [] \<Longrightarrow>
   fst (chunk_document s m doc text md)
     = fst (make_chunk s m doc None ''title''
             (case md ''title'' of Some t \<Rightarrow> t | None \<Rightarrow> take 80 text) md)
       # fst (section_chunks s (Suc m) doc (s m) md (split_sections text))
   \<and> snd (chunk_document s m doc text md)
     = snd (section_chunks s (Suc m) doc (s m) md (split_sections text))"
  by (simp add: chunk_document_def make_chunk_def uuid4_def split_beta)

lemma chunk_document_ids:
  "snd (chunk_document src n doc text md) = n + length (fst (chunk_document src n doc text md))
   \<and> map chunk_id (fst (chunk_document src n doc text md))
       = ids_from src n (length (fst (chunk_document src n doc text md)))"
proof (cases "py_strip text = []")
  case True
  then show ?thesis by (simp add: chunk_document_def)
next
  case False
  define rest where "rest = fst (section_chunks src (Suc n) doc (src n) md (split_sections text))"
  have sec: "snd (section_chunks src (Suc n) doc (src n) md (split_sections text)) = Suc n + length rest"
    "map chunk_id rest = ids_from src (Suc n) (length rest)"
    using section_chunks_ids [of src "Suc n" doc "src n" md "split_sections text"]
    by (simp_all add: rest_def)
  have f: "fst (chunk_document src n doc text md)
       = fst (make_chunk src n doc None ''title''
               (case md ''title'' of Some t \<Rightarrow> t | None \<Rightarrow> take 80 text) md) # rest"
    and s: "snd (chunk_document src n doc text md) = Suc n + length rest"
    using chunk_document_step [OF False, of src n doc md] sec(1)
    by (simp_all only: rest_def [symmetric])
  have "map chunk_id (fst (chunk_document src n doc text md)) = src n # map chunk_id rest"
    by (simp add: f make_chunk_def uuid4_def)
  then have "map chunk_id (fst (chunk_document src n doc text md)) = ids_from src n (Suc (length rest))"
    by (simp only: sec ids_from.simps)
  then show ?thesis using s by (simp add: f)
qed

lemma chunk_document_shape:
  "list_all2 same_text (fst (chunk_document src n doc text md))
                       (fst (chunk_document src' n' doc text md))"
proof (cases "py_strip text = []")
  case True
  then show ?thesis by (simp add: chunk_document_def)
next
  case False
  have "same_text (fst (make_chunk src n doc None ''title''
               (case md ''title'' of Some t \<Rightarrow> t | None \<Rightarrow> take 80 text) md))
        (fst (make_chunk src' n' doc None ''title''
               (case md ''title'' of Some t \<Rightarrow> t | None \<Rightarrow> take 80 text) md))"
    by (simp add: make_chunk_def uuid4_def same_text_def)
  then show ?thesis
    using section_chunks_shape [of src "Suc n" doc "src n" md "split_sections text" src' "Suc n'" "src' n'"]
      chunk_document_step [OF False, of src n doc md] chunk_document_step [OF False, of src' n' doc md]
    by (simp only: list_all2_Cons simp_thms)
qed

lemma table_chunks_ids:
  "snd (table_chunks src n doc md fn ts) = n + length (fst (table_chunks src n doc md fn ts))
   \<and> map chunk_id (fst (table_chunks src n doc md fn ts))
       = ids_from src n (length (fst (table_chunks src n doc md fn ts)))"
proof (induction ts arbitrary: n)
  case Nil
  show ?case by simp
next
  case (Cons t ts)
  show ?case
  proof (cases "csv t = []")
    case True
    then show ?thesis using Cons [of n] by simp
  next
    case False
    then show ?thesis
      using Cons [of "Suc n"] by (simp add: uuid4_def split_beta)
  qed
qed

lemma table_chunks_shape:
  "list_all2 same_text (fst (table_chunks src n doc md fn ts))
                       (fst (table_chunks src' n' doc md fn ts))"
proof (induction ts arbitrary: n n')
  case Nil
  show ?case by simp
next
  case (Cons t ts)
  show ?case
  proof (cases "csv t = []")
    case True
    then show ?thesis using Cons [of n n'] by simp
  next
    case False
    then show ?thesis
      using Cons [of "Suc n" "Suc n'"] by (simp add: uuid4_def split_beta same_text_def)
  qed
qed

lemma execute_upsert_dom: "dom (execute_upsert t tbl r) = insert (chunk_id r) (dom tbl)"
  by (cases "tbl (chunk_id r)") (simp_all add: execute_upsert_def)

lemma execute_rows_dom:
  "execute_rows env i tbl rows = Inr tbl' \<Longrightarrow> dom tbl' = dom tbl \<union> chunk_id ` set rows"
proof (induction rows arbitrary: i tbl)
  case Nil
  then show ?case by simp
next
  case (Cons r rs)
  from Cons.prems have ex: "execute_rows env (Suc i) (execute_upsert (utcnow env i) tbl r) rs = Inr tbl'"
    by (simp split: if_splits)
  show ?case using Cons.IH [OF ex] by (simp add: execute_upsert_dom)
qed

lemma execute_rows_fresh_nth:
  "execute_rows env k tbl rows = Inr tbl' \<Longrightarrow> distinct (map chunk_id rows)
   \<Longrightarrow> \<forall>r \<in> set rows. tbl (chunk_id r) = None \<Longrightarrow> i < length rows
   \<Longrightarrow> tbl' (chunk_id (rows ! i)) = Some (insert_row (utcnow env (k + i)) (rows ! i))"
proof (induction rows arbitrary: k tbl i)
  case Nil
  then show ?case by simp
next
  case (Cons r rs)
  let ?tbl1 = "execute_upsert (utcnow env k) tbl r"
  from Cons.prems(1) have ex: "execute_rows env (Suc k) ?tbl1 rs = Inr tbl'"
    by (simp split: if_splits)
  have notin: "chunk_id r \<notin> chunk_id ` set rs" using Cons.prems(2) by simp
  have none: "tbl (chunk_id r) = None" using Cons.prems(3) by simp
  show ?case
  proof (cases i)
    case 0
    have "tbl' (chunk_id r) = ?tbl1 (chunk_id r)"
      using execute_rows_frame [OF ex notin] .
    then show ?thesis using 0 none by (simp add: execute_upsert_def)
  next
    case (Suc j)
    then have j: "j < length rs" using Cons.prems(4) by simp
    have d: "distinct (map chunk_id rs)" using Cons.prems(2) by simp
    have f: "\<forall>x \<in> set rs. ?tbl1 (chunk_id x) = None"
    proof
      fix x assume x: "x \<in> set rs"
      then have "chunk_id x \<in> chunk_id ` set rs" by (rule imageI)
      then have "chunk_id x \<noteq> chunk_id r" using notin by metis
      then have "?tbl1 (chunk_id x) = tbl (chunk_id x)" by (simp add: execute_upsert_other)
      then show "?tbl1 (chunk_id x) = None" using Cons.prems(3) x by simp
    qed
    show ?thesis using Cons.IH [OF ex d f j] Suc by simp
  qed
qed

lemma upsert_chunks_result:
  assumes "upsert_chunks env db rows = (Inr k, db')"
  shows "k = length rows \<and> execute_rows env 0 db rows = Inr db'"
proof (cases "rows = []")
  case True
  then show ?thesis using assms by (simp add: upsert_chunks_def)
next
  case False
  then show ?thesis using assms
    by (cases "execute_rows env 0 db rows")
       (auto simp: upsert_chunks_def session_scope_def split: if_splits)
qed

lemma same_text_contents: "list_all2 same_text xs ys \<Longrightarrow> map content xs = map content ys"
  by (induction rule: list_all2_induct) (simp_all add: same_text_def)

lemma build_payloads_length:
  "length (build_payloads cs vs) = min (length cs) (length vs)"
  by (simp add: build_payloads_def)

lemma build_payloads_nth:
  "i < length (build_payloads cs vs) \<Longrightarrow> build_payloads cs vs ! i = make_payload (cs ! i) (vs ! i)"
  by (simp add: build_payloads_def)

lemma build_payloads_ids:
  assumes "map chunk_id cs = ids_from src n (length cs)"
  shows "map chunk_id (build_payloads cs vs) = ids_from src n (length (build_payloads cs vs))"
proof (rule nth_equalityI)
  show "length (map chunk_id (build_payloads cs vs)) = length (ids_from src n (length (build_payloads cs vs)))"
    by (simp add: length_ids_from)
next
  fix i assume "i < length (map chunk_id (build_payloads cs vs))"
  then have i: "i < length (build_payloads cs vs)" by simp
  then have ic: "i < length cs" by (simp add: build_payloads_length)
  have "chunk_id (build_payloads cs vs ! i) = chunk_id (cs ! i)"
    using build_payloads_nth [OF i] by (simp add: make_payload_def)
  also have "\<dots> = map chunk_id cs ! i" using ic by simp
  also have "\<dots> = src (n + i)" using ic by (simp only: assms ids_from_nth)
  finally show "map chunk_id (build_payloads cs vs) ! i = ids_from src n (length (build_payloads cs vs)) ! i"
    using i by (simp add: ids_from_nth)
qed

lemma ingest_chunks_ids:
  "map chunk_id (ingest_chunks src n doc text md fn tbls)
   = ids_from src n (length (ingest_chunks src n doc text md fn tbls))
   \<and> snd (table_chunks src (snd (chunk_document src n doc text md)) doc md fn tbls)
     = n + length (ingest_chunks src n doc text md fn tbls)"
proof -
  define cs where "cs = fst (chunk_document src n doc text md)"
  define ts where "ts = fst (table_chunks src (n + length cs) doc md fn tbls)"
  have c: "snd (chunk_document src n doc text md) = n + length cs"
    "map chunk_id cs = ids_from src n (length cs)"
    using chunk_document_ids [of src n doc "text" md] by (simp_all add: cs_def)
  have t: "snd (table_chunks src (n + length cs) doc md fn tbls) = n + length cs + length ts"
    "map chunk_id ts = ids_from src (n + length cs) (length ts)"
    using table_chunks_ids [of src "n + length cs" doc md fn tbls] by (simp_all add: ts_def)
  have all: "ingest_chunks src n doc text md fn tbls = cs @ ts"
    by (simp only: ingest_chunks_def c cs_def [symmetric] ts_def [symmetric])
  show ?thesis
    using c t by (simp add: all ids_from_append)
qed

lemma ingest_chunks_shape:
  "list_all2 same_text (ingest_chunks src n doc text md fn tbls)
                       (ingest_chunks src' n' doc text md fn tbls)"
  unfolding ingest_chunks_def
  by (intro list_all2_appendI chunk_document_shape table_chunks_shape)

lemma ingest_unfold0:
  assumes "md ''document_id'' = Some d" and "d \<noteq> []"
  shows "ingest src n env model elapsed db (text, tbls) filename md
    = (case upsert_chunks env db
          (build_payloads (ingest_chunks src n d text (md(''document_id'' \<mapsto> d)) filename tbls)
             (embed model (map content
                (ingest_chunks src n d text (md(''document_id'' \<mapsto> d)) filename tbls)))) of
         (Inl e, db') \<Rightarrow>
           (Inl e, db',
            snd (table_chunks src (snd (chunk_document src n d text (md(''document_id'' \<mapsto> d))))
                   d (md(''document_id'' \<mapsto> d)) filename tbls))
       | (Inr stored, db') \<Rightarrow>
           (Inr \<lparr>result_chunks = stored, result_tables = length tbls,
                 result_elapsed_ms = elapsed, result_document_id = d\<rparr>, db',
            snd (table_chunks src (snd (chunk_document src n d text (md(''document_id'' \<mapsto> d))))
                   d (md(''document_id'' \<mapsto> d)) filename tbls)))"
  using assms
  by (simp add: ingest_def Let_def split_beta ingest_chunks_def split: prod.split sum.split)

lemma ingest_Inr:
  assumes doc: "md ''document_id'' = Some d" "d \<noteq> []"
    and run: "ingest src n env model elapsed db (text, tbls) filename md = (Inr r, db', n')"
  shows "upsert_chunks env db
          (build_payloads (ingest_chunks src n d text (md(''document_id'' \<mapsto> d)) filename tbls)
             (embed model (map content
                (ingest_chunks src n d text (md(''document_id'' \<mapsto> d)) filename tbls))))
         = (Inr (result_chunks r), db')
       \<and> n' = n + length (ingest_chunks src n d text (md(''document_id'' \<mapsto> d)) filename tbls)
       \<and> result_document_id r = d"
proof -
  define P where "P = build_payloads (ingest_chunks src n d text (md(''document_id'' \<mapsto> d)) filename tbls)
             (embed model (map content
                (ingest_chunks src n d text (md(''document_id'' \<mapsto> d)) filename tbls)))"
  define n3 where "n3 = snd (table_chunks src (snd (chunk_document src n d text (md(''document_id'' \<mapsto> d))))
                   d (md(''document_id'' \<mapsto> d)) filename tbls)"
  have n3: "n3 = n + length (ingest_chunks src n d text (md(''document_id'' \<mapsto> d)) filename tbls)"
    using ingest_chunks_ids [of src n d "text" "md(''document_id'' \<mapsto> d)" filename tbls]
    by (simp only: n3_def)
  have u: "ingest src n env model elapsed db (text, tbls) filename md
    = (case upsert_chunks env db P of
         (Inl e, db') \<Rightarrow> (Inl e, db', n3)
       | (Inr stored, db') \<Rightarrow>
           (Inr \<lparr>result_chunks = stored, result_tables = length tbls,
                 result_elapsed_ms = elapsed, result_document_id = d\<rparr>, db', n3))"
    using ingest_unfold0 [of md d src n env model elapsed db "text" tbls filename, OF doc]
    by (simp only: P_def n3_def)
  obtain res tb where up: "upsert_chunks env db P = (res, tb)" by (cases "upsert_chunks env db P")
  show ?thesis
  proof (cases res)
    case (Inl e)
    then show ?thesis using run u up by simp
  next
    case (Inr stored)
    then have "(Inr r, db', n') = (Inr \<lparr>result_chunks = stored, result_tables = length tbls,
                 result_elapsed_ms = elapsed, result_document_id = d\<rparr>, tb, n3)"
      using run u up by simp
    then have "result_chunks r = stored" "db' = tb" "n' = n3" "result_document_id r = d"
      by auto
    then show ?thesis using up Inr n3 by (simp add: P_def)
  qed
qed

lemma distinct_ids_from: "inj_on src {n..<n + k} \<Longrightarrow> distinct (ids_from src n k)"
proof -
  assume inj: "inj_on src {n..<n + k}"
  have "ids_from src n k ! i \<noteq> ids_from src n k ! j" if "i < k" "j < k" "i \<noteq> j" for i j
  proof -
    have "n + i \<in> {n..<n + k}" "n + j \<in> {n..<n + k}" "n + i \<noteq> n + j" using that by simp_all
    then have "src (n + i) \<noteq> src (n + j)" using inj by (meson inj_on_contraD)
    then show ?thesis using that by (simp add: ids_from_nth)
  qed
  then show ?thesis by (simp add: distinct_conv_nth length_ids_from)
qed

lemma reingest_main:
  assumes doc: "md ''document_id'' = Some d" "d \<noteq> []"
    and first: "ingest src n env1 model el1 db (text, tbls) filename md = (Inr r1, db1, n1)"
    and second: "ingest src n1 env2 model el2 db1 (text, tbls) filename md = (Inr r2, db2, n2)"
    and inj: "inj_on src {n..<n2}"
    and fresh: "\<forall>i \<in> {n..<n2}. src i \<notin> dom db"
  shows "result_document_id r1 = d \<and> result_document_id r2 = d
     \<and> result_chunks r2 = result_chunks r1
     \<and> n + result_chunks r1 \<le> n1
     \<and> dom db1 = dom db \<union> src ` {n..<n + result_chunks r1}
     \<and> dom db2 = dom db1 \<union> src ` {n1..<n1 + result_chunks r1}
     \<and> (\<forall>i < result_chunks r1. src (n1 + i) \<notin> dom db1)
     \<and> (\<forall>c \<in> dom db1. db2 c = db1 c)
     \<and> (\<forall>i < result_chunks r1. \<exists>row1 row2.
           db1 (src (n + i)) = Some row1 \<and> db2 (src (n1 + i)) = Some row2
         \<and> chunk_id row1 = src (n + i) \<and> chunk_id row2 = src (n1 + i)
         \<and> document_id row2 = document_id row1 \<and> level row2 = level row1
         \<and> content row2 = content row1 \<and> metadata row2 = metadata row1
         \<and> embedding row2 = embedding row1 \<and> sparse_tokens row2 = sparse_tokens row1
         \<and> created_at row1 = utcnow env1 i \<and> created_at row2 = utcnow env2 i)"
proof -
  define base where "base = md(''document_id'' \<mapsto> d)"
  define A1 where "A1 = ingest_chunks src n d text base filename tbls"
  define A2 where "A2 = ingest_chunks src n1 d text base filename tbls"
  define V where "V = embed model (map content A1)"
  define P1 where "P1 = build_payloads A1 V"
  define P2 where "P2 = build_payloads A2 V"
  define m where "m = length P1"
  have shape: "list_all2 same_text A1 A2"
    unfolding A1_def A2_def by (rule ingest_chunks_shape)
  have lenA: "length A2 = length A1" using shape by (simp add: list_all2_lengthD)
  have V2: "embed model (map content A2) = V"
    using same_text_contents [OF shape] by (simp add: V_def)
  have i1: "upsert_chunks env1 db P1 = (Inr (result_chunks r1), db1)"
    "n1 = n + length A1" "result_document_id r1 = d"
    using ingest_Inr [OF doc first] by (simp_all only: base_def [symmetric] A1_def [symmetric] V_def [symmetric] P1_def [symmetric])
  have i2: "upsert_chunks env2 db1 P2 = (Inr (result_chunks r2), db2)"
    "n2 = n1 + length A2" "result_document_id r2 = d"
    using ingest_Inr [OF doc second] by (simp_all only: base_def [symmetric] A2_def [symmetric] V2 P2_def [symmetric])
  have lenP2: "length P2 = m"
    by (simp add: P2_def P1_def m_def build_payloads_length lenA)
  have mA: "m \<le> length A1" by (simp add: m_def P1_def build_payloads_length)
  have k1: "result_chunks r1 = m" and ex1: "execute_rows env1 0 db P1 = Inr db1"
    using upsert_chunks_result [OF i1(1)] by (simp_all add: m_def)
  have k2: "result_chunks r2 = m" and ex2: "execute_rows env2 0 db1 P2 = Inr db2"
    using upsert_chunks_result [OF i2(1)] by (simp_all add: lenP2)
  have idsA1: "map chunk_id A1 = ids_from src n (length A1)"
    using ingest_chunks_ids [of src n d "text" base filename tbls] by (simp only: A1_def)
  have idsA2: "map chunk_id A2 = ids_from src n1 (length A2)"
    using ingest_chunks_ids [of src n1 d "text" base filename tbls] by (simp only: A2_def)
  have ids1: "map chunk_id P1 = ids_from src n m"
    using build_payloads_ids [OF idsA1, of V] by (simp only: P1_def [symmetric] m_def)
  have ids2: "map chunk_id P2 = ids_from src n1 m"
    using build_payloads_ids [OF idsA2, of V] by (simp only: P2_def [symmetric] lenP2)
  have set1: "chunk_id ` set P1 = src ` {n..<n + m}"
    using ids1 set_ids_from [of src n m] by (metis set_map)
  have set2: "chunk_id ` set P2 = src ` {n1..<n1 + m}"
    using ids2 set_ids_from [of src n1 m] by (metis set_map)
  have n2: "n2 = n1 + length A1" using i2(2) lenA by simp
  have dom1: "dom db1 = dom db \<union> src ` {n..<n + m}"
    using execute_rows_dom [OF ex1] by (simp only: set1)
  have dom2: "dom db2 = dom db1 \<union> src ` {n1..<n1 + m}"
    using execute_rows_dom [OF ex2] by (simp only: set2)
  have new: "src (n1 + i) \<notin> dom db1" if i: "i < m" for i
  proof
    assume "src (n1 + i) \<in> dom db1"
    moreover have range: "n1 + i \<in> {n..<n2}" using i mA i1(2) n2 by simp
    then have "src (n1 + i) \<notin> dom db" using fresh by blast
    ultimately have "src (n1 + i) \<in> src ` {n..<n + m}" using dom1 by blast
    then obtain j where j: "src (n1 + i) = src j" "n \<le> j" "j < n + m" by auto
    then have "j \<in> {n..<n2}" using mA i1(2) n2 by simp
    then have "n1 + i = j" using inj range j(1) by (meson inj_onD)
    then show False using j(3) mA i1(2) by simp
  qed
  have keep: "db2 c = db1 c" if c: "c \<in> dom db1" for c
  proof -
    have "c \<notin> chunk_id ` set P2"
    proof
      assume "c \<in> chunk_id ` set P2"
      then obtain j where "c = src j" "n1 \<le> j" "j < n1 + m" using set2 by auto
      then have "c = src (n1 + (j - n1))" "j - n1 < m" by simp_all
      then show False using new c by blast
    qed
    then show ?thesis using execute_rows_frame [OF ex2] by blast
  qed
  have inj1: "inj_on src {n..<n + m}"
    using inj mA i1(2) n2 by (intro inj_on_subset [OF inj]) auto
  have inj2: "inj_on src {n1..<n1 + m}"
    using inj mA i1(2) n2 by (intro inj_on_subset [OF inj]) auto
  have d1: "distinct (map chunk_id P1)" using distinct_ids_from [OF inj1] by (simp only: ids1)
  have d2: "distinct (map chunk_id P2)" using distinct_ids_from [OF inj2] by (simp only: ids2)
  have f1: "\<forall>r \<in> set P1. db (chunk_id r) = None"
  proof
    fix r assume "r \<in> set P1"
    then have "chunk_id r \<in> src ` {n..<n + m}" using set1 by blast
    then obtain j where "chunk_id r = src j" "n \<le> j" "j < n + m" by auto
    moreover from this have "j \<in> {n..<n2}" using mA i1(2) n2 by simp
    ultimately have "chunk_id r \<notin> dom db" using fresh by metis
    then show "db (chunk_id r) = None" by blast
  qed
  have f2: "\<forall>r \<in> set P2. db1 (chunk_id r) = None"
  proof
    fix r assume "r \<in> set P2"
    then have "chunk_id r \<in> src ` {n1..<n1 + m}" using set2 by blast
    then obtain j where "chunk_id r = src j" "n1 \<le> j" "j < n1 + m" by auto
    then have "chunk_id r = src (n1 + (j - n1))" "j - n1 < m" by simp_all
    then have "chunk_id r \<notin> dom db1" using new by metis
    then show "db1 (chunk_id r) = None" by blast
  qed
  have rows: "\<exists>row1 row2.
           db1 (src (n + i)) = Some row1 \<and> db2 (src (n1 + i)) = Some row2
         \<and> chunk_id row1 = src (n + i) \<and> chunk_id row2 = src (n1 + i)
         \<and> document_id row2 = document_id row1 \<and> level row2 = level row1
         \<and> content row2 = content row1 \<and> metadata row2 = metadata row1
         \<and> embedding row2 = embedding row1 \<and> sparse_tokens row2 = sparse_tokens row1
         \<and> created_at row1 = utcnow env1 i \<and> created_at row2 = utcnow env2 i"
    if i: "i < m" for i
  proof -
    have iP1: "i < length P1" and iP2: "i < length P2" using i lenP2 by (simp_all add: m_def)
    have c1: "chunk_id (P1 ! i) = src (n + i)"
      using ids1 iP1 i by (metis ids_from_nth nth_map)
    have c2: "chunk_id (P2 ! i) = src (n1 + i)"
      using ids2 iP2 i by (metis ids_from_nth nth_map)
    have r1: "db1 (src (n + i)) = Some (insert_row (utcnow env1 i) (P1 ! i))"
      using execute_rows_fresh_nth [OF ex1 d1 f1 iP1] by (simp add: c1)
    have r2: "db2 (src (n1 + i)) = Some (insert_row (utcnow env2 i) (P2 ! i))"
      using execute_rows_fresh_nth [OF ex2 d2 f2 iP2] by (simp add: c2)
    have p1: "P1 ! i = make_payload (A1 ! i) (V ! i)"
      using build_payloads_nth [of i A1 V] iP1 by (simp add: P1_def)
    have p2: "P2 ! i = make_payload (A2 ! i) (V ! i)"
      using build_payloads_nth [of i A2 V] iP2 by (simp add: P2_def)
    have "i < length A1" using i mA by simp
    then have st: "same_text (A1 ! i) (A2 ! i)" using shape by (simp add: list_all2_nthD)
    show ?thesis
      using r1 r2 c1 c2 st
      by (simp add: p1 p2 insert_row_def make_payload_def same_text_def)
  qed
  show ?thesis
    using i1(3) i2(3) k1 k2 mA i1(2) dom1 dom2 new keep rows by simp
qed

lemma upsert_chunks_ok:
  assumes "\<forall>i < length rows. \<not> stmt_fails env i" and "\<not> commit_fails env"
  shows "\<exists>db'. upsert_chunks env db rows = (Inr (length rows), db')"
proof -
  have "\<forall>j < length rows. \<not> stmt_fails env (0 + j)" using assms(1) by simp
  then obtain db' where "execute_rows env 0 db rows = Inr db'"
    using execute_rows_ok [of rows env 0 db] by blast
  then have "upsert_chunks env db rows = (Inr (length rows), db')"
    using assms(2) by (cases rows) (simp_all add: upsert_chunks_def session_scope_def)
  then show ?thesis by blast
qed

lemma ingest_ok:
  assumes doc: "md ''document_id'' = Some d" "d \<noteq> []"
    and ok: "\<forall>i. \<not> stmt_fails env i" "\<not> commit_fails env"
  shows "\<exists>db'. ingest src n env model elapsed db (body, tbls) filename md
     = (Inr \<lparr>result_chunks =
               length (build_payloads
                 (ingest_chunks src n d body (md(''document_id'' \<mapsto> d)) filename tbls)
                 (embed model (map content
                    (ingest_chunks src n d body (md(''document_id'' \<mapsto> d)) filename tbls)))),
             result_tables = length tbls, result_elapsed_ms = elapsed, result_document_id = d\<rparr>,
        db', n + length (ingest_chunks src n d body (md(''document_id'' \<mapsto> d)) filename tbls))"
proof -
  define A where "A = ingest_chunks src n d body (md(''document_id'' \<mapsto> d)) filename tbls"
  define P where "P = build_payloads A (embed model (map content A))"
  obtain db' where up: "upsert_chunks env db P = (Inr (length P), db')"
    using upsert_chunks_ok [of P env db] ok by blast
  have n3: "snd (table_chunks src (snd (chunk_document src n d body (md(''document_id'' \<mapsto> d))))
                   d (md(''document_id'' \<mapsto> d)) filename tbls) = n + length A"
    using ingest_chunks_ids [of src n d body "md(''document_id'' \<mapsto> d)" filename tbls]
    by (simp only: A_def)
  have "ingest src n env model elapsed db (body, tbls) filename md
     = (Inr \<lparr>result_chunks = length P, result_tables = length tbls, result_elapsed_ms = elapsed,
             result_document_id = d\<rparr>, db', n + length A)"
    using ingest_unfold0 [of md d src n env model elapsed db body tbls filename, OF doc] up
    by (simp only: A_def [symmetric] P_def [symmetric] n3 prod.case sum.case)
  then show ?thesis unfolding P_def A_def by blast
qed

lemma example_chunk_count:
  "length (ingest_chunks src n doc chunker_text md filename []) = 7"
proof -
  have "py_strip chunker_text \<noteq> []" by code_simp
  have s: "split_sections chunker_text
           = [(''Title'', []), (''Heading1'', ''line1\<newline>line2''), (''Heading2'', ''line3'')]"
    by code_simp
  have l: "stripped_lines [] = []" "stripped_lines ''line1\<newline>line2'' = [''line1'', ''line2'']"
    "stripped_lines ''line3'' = [''line3'']"
    by code_simp+
  show ?thesis
    using \<open>py_strip chunker_text \<noteq> []\<close>
    by (simp add: ingest_chunks_def chunk_document_def make_chunk_def uuid4_def
        split_paragraphs_def Let_def split_beta s l)
qed

lemma example_uuids_distinct: "inj_on example_uuids {0..<14}"
proof -
  have "distinct (map example_uuids [0..<14])" by code_simp
  then have "inj_on example_uuids (set [0..<14])" by (simp only: distinct_map)
  then show ?thesis by (simp only: set_upt)
qed

lemma example_runs:
  "\<exists>r1 r2. first_ingest = (Inr r1, fst (snd first_ingest), 7) \<and> result_chunks r1 = 7
     \<and> second_ingest = (Inr r2, fst (snd second_ingest), 14)"
proof -
  have doc: "example_metadata ''document_id'' = Some ''doc-1''" "''doc-1'' \<noteq> []"
    by (simp_all add: example_metadata_def)
  have ok: "\<forall>i. \<not> stmt_fails example_env i" "\<not> commit_fails example_env"
    by (simp_all add: example_env_def)
  have len: "length (build_payloads
                 (ingest_chunks src n ''doc-1'' chunker_text md ''report.txt'' [])
                 (embed stub_model (map content
                    (ingest_chunks src n ''doc-1'' chunker_text md ''report.txt'' [])))) = 7"
    for src n md
    by (simp add: build_payloads_length embed_def stub_model_def example_chunk_count)
  obtain db1 where f: "first_ingest
     = (Inr \<lparr>result_chunks = 7, result_tables = length ([] :: table_info list),
             result_elapsed_ms = 5, result_document_id = ''doc-1''\<rparr>, db1, 0 + 7)"
    using ingest_ok [where md = example_metadata and d = "''doc-1''" and env = example_env
        and src = example_uuids and n = 0 and model = stub_model and elapsed = 5
        and db = Map.empty and body = chunker_text and tbls = "[]" and filename = "''report.txt''",
        OF doc ok]
    by (simp only: first_ingest_def len example_chunk_count) blast
  obtain db2 where s: "second_ingest
     = (Inr \<lparr>result_chunks = 7, result_tables = length ([] :: table_info list),
             result_elapsed_ms = 5, result_document_id = ''doc-1''\<rparr>, db2, 7 + 7)"
    using ingest_ok [where md = example_metadata and d = "''doc-1''" and env = example_env
        and src = example_uuids and n = 7 and model = stub_model and elapsed = 5
        and db = "fst (snd first_ingest)" and body = chunker_text and tbls = "[]"
        and filename = "''report.txt''", OF doc ok]
    by (simp only: second_ingest_def len example_chunk_count) blast
  have e1: "fst (snd first_ingest) = db1" by (simp add: f)
  have e2: "fst (snd second_ingest) = db2" by (simp add: s)
  have "first_ingest
     = (Inr \<lparr>result_chunks = 7, result_tables = length ([] :: table_info list),
             result_elapsed_ms = 5, result_document_id = ''doc-1''\<rparr>, fst (snd first_ingest), 7)"
    by (subst e1) (simp add: f)
  moreover have "second_ingest
     = (Inr \<lparr>result_chunks = 7, result_tables = length ([] :: table_info list),
             result_elapsed_ms = 5, result_document_id = ''doc-1''\<rparr>, fst (snd second_ingest), 14)"
    by (subst e2) (simp add: s)
  moreover have "result_chunks \<lparr>result_chunks = 7, result_tables = length ([] :: table_info list),
             result_elapsed_ms = 5, result_document_id = ''doc-1''\<rparr> = 7"
    by simp
  ultimately show ?thesis by blast
qed

text \<open>
  C1. Ingesting a document a second time, with the same \<open>document_id\<close> in the metadata
  and the same content, does not reuse the chunk identifiers of the first ingestion:
  every chunk draws a new identifier. When the identifiers drawn in the two calls are
  distinct and not yet in the table, the second call writes as many rows as the first,
  under new identifiers; the rows of the first call stay as they were, \<open>created_at\<close>,
  \<open>content\<close> and \<open>embedding\<close> included; and the \<open>i\<close>-th new row agrees with the
  \<open>i\<close>-th row of the first call on \<open>document_id\<close>, \<open>level\<close>, \<open>content\<close>,
  \<open>metadata\<close>, \<open>embedding\<close> and \<open>sparse_tokens\<close>, and has its own \<open>created_at\<close>.
\<close>

theorem reingest_draws_fresh_chunk_ids:
  assumes "md ''document_id'' = Some d" and "d \<noteq> []"
    and "ingest src n env1 model el1 db (text, tbls) filename md = (Inr r1, db1, n1)"
    and "ingest src n1 env2 model el2 db1 (text, tbls) filename md = (Inr r2, db2, n2)"
    and "inj_on src {n..<n2}"
    and "\<forall>i \<in> {n..<n2}. src i \<notin> dom db"
  shows "result_document_id r1 = d \<and> result_document_id r2 = d
     \<and> result_chunks r2 = result_chunks r1
     \<and> n + result_chunks r1 \<le> n1
     \<and> dom db1 = dom db \<union> src ` {n..<n + result_chunks r1}
     \<and> dom db2 = dom db1 \<union> src ` {n1..<n1 + result_chunks r1}
     \<and> (\<forall>i < result_chunks r1. src (n1 + i) \<notin> dom db1)
     \<and> (\<forall>c \<in> dom db1. db2 c = db1 c)
     \<and> (\<forall>i < result_chunks r1. \<exists>row1 row2.
           db1 (src (n + i)) = Some row1 \<and> db2 (src (n1 + i)) = Some row2
         \<and> chunk_id row1 = src (n + i) \<and> chunk_id row2 = src (n1 + i)
         \<and> document_id row2 = document_id row1 \<and> level row2 = level row1
         \<and> content row2 = content row1 \<and> metadata row2 = metadata row1
         \<and> embedding row2 = embedding row1 \<and> sparse_tokens row2 = sparse_tokens row1
         \<and> created_at row1 = utcnow env1 i \<and> created_at row2 = utcnow env2 i)"
  using assms by (rule reingest_main)

theorem reingest_draws_fresh_chunk_ids_witness:
  "snd (snd first_ingest) = 7 \<and> snd (snd second_ingest) = 14
   \<and> dom (fst (snd first_ingest)) = example_uuids ` {0..<7}
   \<and> dom (fst (snd second_ingest)) = example_uuids ` {0..<7} \<union> example_uuids ` {7..<14}
   \<and> example_uuids 7 \<notin> dom (fst (snd first_ingest))"
proof -
  obtain r1 r2 where f: "first_ingest = (Inr r1, fst (snd first_ingest), 7)"
    and k: "result_chunks r1 = 7"
    and s: "second_ingest = (Inr r2, fst (snd second_ingest), 14)"
    using example_runs by blast
  have doc: "example_metadata ''document_id'' = Some ''doc-1''" "''doc-1'' \<noteq> []"
    by (simp_all add: example_metadata_def)
  have fresh: "\<forall>i \<in> {0..<14}. example_uuids i \<notin> dom (Map.empty :: table)" by simp
  define db1 where "db1 = fst (snd first_ingest)"
  define db2 where "db2 = fst (snd second_ingest)"
  have f': "ingest example_uuids 0 example_env stub_model 5 Map.empty (chunker_text, [])
              ''report.txt'' example_metadata = (Inr r1, db1, 7)"
    using f by (simp only: db1_def [symmetric]) (simp only: first_ingest_def)
  have s': "ingest example_uuids 7 example_env stub_model 5 db1 (chunker_text, [])
              ''report.txt'' example_metadata = (Inr r2, db2, 14)"
    using s by (simp only: db2_def [symmetric]) (simp only: second_ingest_def db1_def [symmetric])
  note t = reingest_draws_fresh_chunk_ids [OF doc f' s' example_uuids_distinct fresh,
      unfolded db1_def db2_def]
  note t5 = t [THEN conjunct2, THEN conjunct2, THEN conjunct2, THEN conjunct2, THEN conjunct1]
  note t6 = t [THEN conjunct2, THEN conjunct2, THEN conjunct2, THEN conjunct2, THEN conjunct2,
      THEN conjunct1]
  note t7 = t [THEN conjunct2, THEN conjunct2, THEN conjunct2, THEN conjunct2, THEN conjunct2,
      THEN conjunct2, THEN conjunct1]
  have d1: "dom (fst (snd first_ingest)) = example_uuids ` {0..<7}"
    using t5 by (simp add: k)
  have d2: "dom (fst (snd second_ingest)) = example_uuids ` {0..<7} \<union> example_uuids ` {7..<14}"
    using t6 by (simp add: k d1)
  have "(0::nat) < result_chunks r1" by (simp add: k)
  then have n7: "example_uuids (7 + 0) \<notin> dom (fst (snd first_ingest))"
    using t7 by blast
  have e1: "snd (snd first_ingest) = 7" by (subst f) simp
  have e2: "snd (snd second_ingest) = 14" by (subst s) simp
  show ?thesis using e1 e2 d1 d2 n7 by simp
qed

text \<open>
  After the second ingestion the table holds a chunk under an identifier that the first
  ingestion did not produce, beside the rows of the first.
\<close>

theorem reingest_identical_chunk_ids_counterexample:
  "''uuid-000007'' \<in> dom (fst (snd second_ingest))
   \<and> ''uuid-000007'' \<notin> dom (fst (snd first_ingest))
   \<and> ''uuid-000000'' \<in> dom (fst (snd second_ingest))"
proof -
  obtain r1 r2 where f: "first_ingest = (Inr r1, fst (snd first_ingest), 7)"
    and k: "result_chunks r1 = 7"
    and s: "second_ingest = (Inr r2, fst (snd second_ingest), 14)"
    using example_runs by blast
  have doc: "example_metadata ''document_id'' = Some ''doc-1''" "''doc-1'' \<noteq> []"
    by (simp_all add: example_metadata_def)
  have fresh: "\<forall>i \<in> {0..<14}. example_uuids i \<notin> dom (Map.empty :: table)" by simp
  define db1 where "db1 = fst (snd first_ingest)"
  define db2 where "db2 = fst (snd second_ingest)"
  have f': "ingest example_uuids 0 example_env stub_model 5 Map.empty (chunker_text, [])
              ''report.txt'' example_metadata = (Inr r1, db1, 7)"
    using f by (simp only: db1_def [symmetric]) (simp only: first_ingest_def)
  have s': "ingest example_uuids 7 example_env stub_model 5 db1 (chunker_text, [])
              ''report.txt'' example_metadata = (Inr r2, db2, 14)"
    using s by (simp only: db2_def [symmetric]) (simp only: second_ingest_def db1_def [symmetric])
  note t = reingest_main [OF doc f' s' example_uuids_distinct fresh,
      unfolded db1_def db2_def]
  note t5 = t [THEN conjunct2, THEN conjunct2, THEN conjunct2, THEN conjunct2, THEN conjunct1]
  note t6 = t [THEN conjunct2, THEN conjunct2, THEN conjunct2, THEN conjunct2, THEN conjunct2,
      THEN conjunct1]
  note t7 = t [THEN conjunct2, THEN conjunct2, THEN conjunct2, THEN conjunct2, THEN conjunct2,
      THEN conjunct2, THEN conjunct1]
  have u: "example_uuids 7 = ''uuid-000007''" "example_uuids 0 = ''uuid-000000''" by code_simp+
  have d1: "dom (fst (snd first_ingest)) = example_uuids ` {0..<7}"
    using t5 by (simp add: k)
  have d2: "dom (fst (snd second_ingest)) = example_uuids ` {0..<7} \<union> example_uuids ` {7..<14}"
    using t6 by (simp add: k d1)
  have "(0::nat) < result_chunks r1" by (simp add: k)
  then have "example_uuids (7 + 0) \<notin> dom (fst (snd first_ingest))"
    using t7 by blast
  then have a: "''uuid-000007'' \<notin> dom (fst (snd first_ingest))" by (simp add: u)
  have "example_uuids 7 \<in> example_uuids ` {7..<14}" by simp
  then have b: "''uuid-000007'' \<in> dom (fst (snd second_ingest))" by (simp only: d2 u Un_iff simp_thms)
  have "example_uuids 0 \<in> example_uuids ` {0..<7}" by simp
  then have c: "''uuid-000000'' \<in> dom (fst (snd second_ingest))" by (simp only: d2 u Un_iff simp_thms)
  show ?thesis using a b c by blast
qed
section \<open>The tokens persisted at ingestion are the tokens of the query\<close>

lemma ingest_upserts:
  assumes run: "ingest src n env model elapsed db parsed filename md = (Inr r, db', n')"
  shows "\<exists>chunks vectors stored. upsert_chunks env db (build_payloads chunks vectors) = (Inr stored, db')"
proof -
  have "\<exists>chunks vectors n3 d. ingest src n env model elapsed db parsed filename md
     = (case upsert_chunks env db (build_payloads chunks vectors) of
          (Inl e, db') \<Rightarrow> (Inl e, db', n3)
        | (Inr stored, db') \<Rightarrow>
            (Inr \<lparr>result_chunks = stored, result_tables = length (snd parsed),
                  result_elapsed_ms = elapsed, result_document_id = d\<rparr>, db', n3))"
    unfolding ingest_def Let_def split_beta by (intro exI) (rule refl)
  then obtain chunks vectors n3 d where u: "ingest src n env model elapsed db parsed filename md
     = (case upsert_chunks env db (build_payloads chunks vectors) of
          (Inl e, db') \<Rightarrow> (Inl e, db', n3)
        | (Inr stored, db') \<Rightarrow>
            (Inr \<lparr>result_chunks = stored, result_tables = length (snd parsed),
                  result_elapsed_ms = elapsed, result_document_id = d\<rparr>, db', n3))"
    by blast
  obtain res tb where up: "upsert_chunks env db (build_payloads chunks vectors) = (res, tb)"
    by (cases "upsert_chunks env db (build_payloads chunks vectors)")
  show ?thesis
  proof (cases res)
    case (Inl e)
    then show ?thesis using run u up by simp
  next
    case (Inr stored)
    then have "db' = tb" using run u up by simp
    then show ?thesis using up Inr by blast
  qed
qed

lemma build_payloads_tokens:
  "p \<in> set (build_payloads chunks vectors) \<Longrightarrow> sparse_tokens p = Some (tokenize (content p))"
  by (auto simp: build_payloads_def make_payload_def)

lemma upsert_written:
  assumes up: "upsert_chunks env db rows = (Inr stored, db')" and ch: "db' c \<noteq> db c"
  shows "\<exists>row p. db' c = Some row \<and> p \<in> set rows \<and> content row = content p
           \<and> sparse_tokens row = sparse_tokens p"
proof -
  have ex: "execute_rows env 0 db rows = Inr db'"
    using up by (rule upsert_chunks_Inr)
  have "c \<in> chunk_id ` set rows"
    using execute_rows_frame [OF ex, of c] ch by blast
  then have "find (\<lambda>x. chunk_id x = c) rows \<noteq> None"
    by (auto simp: find_None_iff)
  then obtain r1 where f1: "find (\<lambda>x. chunk_id x = c) rows = Some r1" by auto
  then have "find (\<lambda>x. chunk_id x = c) (rev rows) \<noteq> None"
    using find_rev_None [of "\<lambda>x. chunk_id x = c" rows] by simp
  then obtain p where f2: "find (\<lambda>x. chunk_id x = c) (rev rows) = Some p" by auto
  have pin: "p \<in> set rows" using find_SomeD [OF f2] by simp
  define base where "base = (case db c of
            Some old \<Rightarrow> old
          | None \<Rightarrow> insert_row (utcnow env (0 + length (takeWhile (\<lambda>x. chunk_id x \<noteq> c) rows))) r1)"
  have "db' c = Some (conflict_update base p)"
    using execute_rows_lookup [OF ex f1 f2] by (simp only: base_def)
  moreover have "content (conflict_update base p) = content p"
    and "sparse_tokens (conflict_update base p) = sparse_tokens p"
    by (simp_all add: conflict_update_def)
  ultimately show ?thesis using pin by blast
qed

lemma sparse_retrieval_tokens:
  assumes "rows \<noteq> []"
  shows "sparse_retrieval bm25 (fetch_sparse_corpus rows) query top_k
     = py_take top_k (py_sorted_desc score
         (map (\<lambda>(doc, s). sparse_item doc s)
            (zip (map corpus_doc_of_row rows)
               (bm25 (map (\<lambda>row. case sparse_tokens row of Some tokens \<Rightarrow> tokens | None \<Rightarrow> []) rows)
                  (py_split_ws (py_lower query))))))"
proof -
  have dt: "map doc_tokens (fetch_sparse_corpus rows)
        = map (\<lambda>row. case sparse_tokens row of Some tokens \<Rightarrow> tokens | None \<Rightarrow> []) rows"
    by (simp add: fetch_sparse_corpus_def corpus_doc_of_row_def comp_def)
  have tk: "tokenize query = py_split_ws (py_lower query)"
    using tokenize_eq_spec [of query] by (simp add: tokenize_spec_def)
  have "fetch_sparse_corpus rows \<noteq> []"
    using assms by (simp add: fetch_sparse_corpus_def)
  then have "sparse_retrieval bm25 (fetch_sparse_corpus rows) query top_k
     = py_take top_k (py_sorted_desc score
         (map (\<lambda>(doc, s). sparse_item doc s)
            (zip (fetch_sparse_corpus rows)
               (bm25 (map doc_tokens (fetch_sparse_corpus rows)) (tokenize query)))))"
    by (simp add: sparse_retrieval_def Let_def)
  then show ?thesis by (simp only: dt tk) (simp only: fetch_sparse_corpus_def)
qed

text \<open>
  C8. Every row that a successful \<open>ingest\<close> writes carries as \<open>sparse_tokens\<close> its
  content, lower-cased and split on whitespace. The sparse branch hands the scorer, as
  index documents, the \<open>sparse_tokens\<close> of the rows it read (the empty list for a null
  column) and, as query tokens, the query lower-cased and split on whitespace; its hits
  are the documents with the scores so obtained, sorted and cut. So, when the content of
  a written row is the query, the scorer receives the same token list for the row and
  for the query. Both token lists are computed by \<open>EmbeddingService.tokenize\<close>, which
  lower-cases the text and splits it on whitespace.
\<close>

theorem tokenizer_shared:
  assumes "ingest src n env model elapsed db parsed filename md = (Inr r, db', n')"
  shows "(\<forall>c. db' c \<noteq> db c \<longrightarrow>
            (\<exists>row. db' c = Some row
               \<and> sparse_tokens row = Some (py_split_ws (py_lower (content row)))
               \<and> (\<forall>bm25 top_k.
                    sparse_retrieval bm25 (fetch_sparse_corpus [row]) (content row) top_k
                    = py_take top_k (py_sorted_desc score
                        (map (\<lambda>(doc, s). sparse_item doc s)
                           (zip [corpus_doc_of_row row]
                              (bm25 [py_split_ws (py_lower (content row))]
                                 (py_split_ws (py_lower (content row))))))))))
      \<and> (\<forall>bm25 rows query top_k. rows \<noteq> [] \<longrightarrow>
            sparse_retrieval bm25 (fetch_sparse_corpus rows) query top_k
            = py_take top_k (py_sorted_desc score
                (map (\<lambda>(doc, s). sparse_item doc s)
                   (zip (map corpus_doc_of_row rows)
                      (bm25 (map (\<lambda>row. case sparse_tokens row of Some tokens \<Rightarrow> tokens | None \<Rightarrow> []) rows)
                         (py_split_ws (py_lower query)))))))
      \<and> (\<forall>body. tokenize body = py_split_ws (py_lower body))"
proof (intro conjI allI impI)
  fix c assume ch: "db' c \<noteq> db c"
  obtain chunks vectors stored where
    up: "upsert_chunks env db (build_payloads chunks vectors) = (Inr stored, db')"
    using ingest_upserts [OF assms] by blast
  obtain row p where row: "db' c = Some row" and pin: "p \<in> set (build_payloads chunks vectors)"
    and co: "content row = content p" and tk: "sparse_tokens row = sparse_tokens p"
    using upsert_written [OF up ch] by blast
  have "sparse_tokens row = Some (tokenize (content row))"
    using build_payloads_tokens [OF pin] co tk by simp
  then have st: "sparse_tokens row = Some (py_split_ws (py_lower (content row)))"
    using tokenize_eq_spec [of "content row"] by (simp add: tokenize_spec_def)
  have "sparse_retrieval bm25 (fetch_sparse_corpus [row]) (content row) top_k
         = py_take top_k (py_sorted_desc score
             (map (\<lambda>(doc, s). sparse_item doc s)
                (zip [corpus_doc_of_row row]
                   (bm25 [py_split_ws (py_lower (content row))]
                      (py_split_ws (py_lower (content row)))))))" for bm25 top_k
    using sparse_retrieval_tokens [of "[row]" bm25 "content row" top_k] st by simp
  then show "\<exists>row. db' c = Some row
               \<and> sparse_tokens row = Some (py_split_ws (py_lower (content row)))
               \<and> (\<forall>bm25 top_k.
                    sparse_retrieval bm25 (fetch_sparse_corpus [row]) (content row) top_k
                    = py_take top_k (py_sorted_desc score
                        (map (\<lambda>(doc, s). sparse_item doc s)
                           (zip [corpus_doc_of_row row]
                              (bm25 [py_split_ws (py_lower (content row))]
                                 (py_split_ws (py_lower (content row))))))))"
    using row st by blast
next
  fix bm25 :: "string list list \<Rightarrow> string list \<Rightarrow> rat list"
  fix rows :: "stored_row list" and query top_k
  assume "rows \<noteq> []"
  then show "sparse_retrieval bm25 (fetch_sparse_corpus rows) query top_k
            = py_take top_k (py_sorted_desc score
                (map (\<lambda>(doc, s). sparse_item doc s)
                   (zip (map corpus_doc_of_row rows)
                      (bm25 (map (\<lambda>row. case sparse_tokens row of Some tokens \<Rightarrow> tokens | None \<Rightarrow> []) rows)
                         (py_split_ws (py_lower query))))))"
    by (rule sparse_retrieval_tokens)
next
  fix body
  show "tokenize body = py_split_ws (py_lower body)"
    using tokenize_eq_spec [of body] by (simp add: tokenize_spec_def)
qed

lemma example_third_chunk:
  "content (ingest_chunks src n doc chunker_text md filename [] ! 2) = ''Heading1''"
proof -
  have "py_strip chunker_text \<noteq> []" by code_simp
  then show ?thesis
    by (simp add: ingest_chunks_def chunk_document_def make_chunk_def uuid4_def
        split_paragraphs_def Let_def split_beta example_sections example_lines_12
        example_lines_3 stripped_lines_empty example_headings_stripped)
qed

lemma first_ingest_heading:
  "\<exists>row. fst (snd first_ingest) ''uuid-000002'' = Some row \<and> content row = ''Heading1''
      \<and> chunk_id row = ''uuid-000002''"
proof -
  obtain r1 where f: "first_ingest = (Inr r1, fst (snd first_ingest), 7)"
    using example_runs by blast
  define db1 where "db1 = fst (snd first_ingest)"
  define C where "C = ingest_chunks example_uuids 0 ''doc-1'' chunker_text
                        (example_metadata(''document_id'' \<mapsto> ''doc-1'')) ''report.txt'' []"
  define P where "P = build_payloads C (embed stub_model (map content C))"
  have doc: "example_metadata ''document_id'' = Some ''doc-1''" "''doc-1'' \<noteq> []"
    by (simp_all add: example_metadata_def)
  have f': "ingest example_uuids 0 example_env stub_model 5 Map.empty (chunker_text, [])
              ''report.txt'' example_metadata = (Inr r1, db1, 7)"
    using f by (simp only: db1_def [symmetric]) (simp only: first_ingest_def)
  have up: "upsert_chunks example_env Map.empty P = (Inr (result_chunks r1), db1)"
    using ingest_Inr [OF doc f'] by (simp only: P_def C_def)
  have ex: "execute_rows example_env 0 Map.empty P = Inr db1"
    using upsert_chunks_result [OF up] by simp
  have lenC: "length C = 7" by (simp only: C_def example_chunk_count)
  have lenP: "length P = 7"
    by (simp add: P_def build_payloads_length embed_def stub_model_def lenC)
  have idsC: "map chunk_id C = ids_from example_uuids 0 (length C)"
    using ingest_chunks_ids [of example_uuids 0 "''doc-1''" chunker_text
        "example_metadata(''document_id'' \<mapsto> ''doc-1'')" "''report.txt''" "[]"]
    by (simp only: C_def)
  have ids: "map chunk_id P = ids_from example_uuids 0 7"
    using build_payloads_ids [OF idsC, of "embed stub_model (map content C)"]
    by (simp only: P_def [symmetric] lenP)
  have "inj_on example_uuids {0..<0 + 7}"
    using example_uuids_distinct by (rule inj_on_subset) simp
  then have dist: "distinct (map chunk_id P)"
    by (simp only: ids distinct_ids_from)
  have fresh: "\<forall>r \<in> set P. (Map.empty :: table) (chunk_id r) = None" by simp
  have i: "2 < length P" by (simp add: lenP)
  have row: "db1 (chunk_id (P ! 2)) = Some (insert_row (utcnow example_env (0 + 2)) (P ! 2))"
    using execute_rows_fresh_nth [OF ex dist fresh i] .
  have "chunk_id (P ! 2) = map chunk_id P ! 2" using i by simp
  also have "\<dots> = example_uuids (0 + 2)" by (simp only: ids) (simp add: ids_from_nth)
  also have "\<dots> = ''uuid-000002''" by code_simp
  finally have cid: "chunk_id (P ! 2) = ''uuid-000002''" .
  have "P ! 2 = make_payload (C ! 2) (embed stub_model (map content C) ! 2)"
    using build_payloads_nth [of 2 C "embed stub_model (map content C)"] i
    by (simp only: P_def [symmetric])
  then have co: "content (P ! 2) = ''Heading1''"
    by (simp add: make_payload_def C_def example_third_chunk)
  show ?thesis
    using row cid co by (simp add: db1_def insert_row_def)
qed

theorem tokenizer_shared_witness:
  "\<exists>row. fst (snd first_ingest) ''uuid-000002'' = Some row \<and> content row = ''Heading1''
      \<and> sparse_tokens row = Some [''heading1'']
      \<and> map (\<lambda>h. (chunk_id h, score h))
           (sparse_retrieval overlap_scorer (fetch_sparse_corpus [row]) ''Heading1'' 1)
         = [(''uuid-000002'', 1)]
      \<and> map (\<lambda>h. (chunk_id h, score h))
           (sparse_retrieval overlap_scorer (fetch_sparse_corpus [row]) ''HEADING1  report'' 1)
         = [(''uuid-000002'', 1)]
      \<and> map (\<lambda>h. (chunk_id h, score h))
           (sparse_retrieval overlap_scorer (fetch_sparse_corpus [row]) ''Heading2'' 1)
         = [(''uuid-000002'', 0)]"
proof -
  obtain r1 where f: "first_ingest = (Inr r1, fst (snd first_ingest), 7)"
    using example_runs by blast
  define db1 where "db1 = fst (snd first_ingest)"
  have f': "ingest example_uuids 0 example_env stub_model 5 Map.empty (chunker_text, [])
              ''report.txt'' example_metadata = (Inr r1, db1, 7)"
    using f by (simp only: db1_def [symmetric]) (simp only: first_ingest_def)
  note t = tokenizer_shared [OF f']
  obtain row0 where r0: "db1 ''uuid-000002'' = Some row0" and c0: "content row0 = ''Heading1''"
    and i0: "chunk_id row0 = ''uuid-000002''"
    using first_ingest_heading by (auto simp: db1_def)
  have ch: "db1 ''uuid-000002'' \<noteq> (Map.empty :: table) ''uuid-000002''"
    using r0 by simp
  obtain row where r: "db1 ''uuid-000002'' = Some row"
    and tk: "sparse_tokens row = Some (py_split_ws (py_lower (content row)))"
    and self: "\<forall>bm25 top_k.
                    sparse_retrieval bm25 (fetch_sparse_corpus [row]) (content row) top_k
                    = py_take top_k (py_sorted_desc score
                        (map (\<lambda>(doc, s). sparse_item doc s)
                           (zip [corpus_doc_of_row row]
                              (bm25 [py_split_ws (py_lower (content row))]
                                 (py_split_ws (py_lower (content row)))))))"
    using t [THEN conjunct1, rule_format, OF ch] by blast
  have same: "row = row0" using r r0 by simp
  have co: "content row = ''Heading1''" and ci: "chunk_id row = ''uuid-000002''"
    using c0 i0 by (simp_all add: same)
  have w: "py_split_ws (py_lower ''Heading1'') = [''heading1'']"
    "py_split_ws (py_lower ''HEADING1  report'') = [''heading1'', ''report'']"
    "py_split_ws (py_lower ''Heading2'') = [''heading2'']"
    by code_simp+
  have tokens: "sparse_tokens row = Some [''heading1'']"
    using tk by (simp only: co w)
  have ne: "[row] \<noteq> []" by simp
  note other = t [THEN conjunct2, THEN conjunct1, rule_format, OF ne, of overlap_scorer _ 1]
  have q1: "map (\<lambda>h. (chunk_id h, score h))
           (sparse_retrieval overlap_scorer (fetch_sparse_corpus [row]) ''Heading1'' 1)
         = [(''uuid-000002'', 1)]"
    using self [rule_format, of overlap_scorer 1]
    by (simp add: co w ci overlap_scorer_def py_take_def py_sorted_desc_def sparse_item_def
        corpus_doc_of_row_def)
  have q2: "map (\<lambda>h. (chunk_id h, score h))
           (sparse_retrieval overlap_scorer (fetch_sparse_corpus [row]) ''HEADING1  report'' 1)
         = [(''uuid-000002'', 1)]"
    using other [of "''HEADING1  report''"]
    by (simp add: tokens w ci overlap_scorer_def py_take_def py_sorted_desc_def sparse_item_def
        corpus_doc_of_row_def)
  have q3: "map (\<lambda>h. (chunk_id h, score h))
           (sparse_retrieval overlap_scorer (fetch_sparse_corpus [row]) ''Heading2'' 1)
         = [(''uuid-000002'', 0)]"
    using other [of "''Heading2''"]
    by (simp add: tokens w ci overlap_scorer_def py_take_def py_sorted_desc_def sparse_item_def
        corpus_doc_of_row_def)
  show ?thesis using r co tokens q1 q2 q3 by (simp add: db1_def)
qed


section \<open>The hash-derived fallback embedding\<close>

lemma rounds_length: "length st = 8 \<Longrightarrow> length (rounds ks ws st) = 8"
  by (induction ks ws st rule: rounds.induct) (simp_all add: Let_def)

lemma compress_length: "length hs = 8 \<Longrightarrow> length (compress hs block) = 8"
  by (simp add: compress_def Let_def rounds_length)

lemma foldl_compress_length: "length hs = 8 \<Longrightarrow> length (foldl compress hs bs) = 8"
  by (induction bs arbitrary: hs) (simp_all add: compress_length)

lemma length_concat_be_bytes32: "length (concat (map be_bytes32 ws)) = 4 * length ws"
  by (induction ws) (simp_all add: be_bytes32_def)

lemma sha256_length: "length (sha256 m) = 32"
proof -
  have "length H256 = 8" by (simp add: H256_def)
  then have "length (foldl compress H256 bs) = 8" for bs
    by (rule foldl_compress_length)
  then show ?thesis by (simp add: sha256_def Let_def length_concat_be_bytes32)
qed

lemma length_concat_replicate: "length (concat (replicate n xs)) = n * length xs"
  by (induction n) simp_all

lemma nth_concat_replicate:
  "i < n * length xs \<Longrightarrow> concat (replicate n xs) ! i = xs ! (i mod length xs)"
proof (induction n arbitrary: i)
  case 0
  then show ?case by simp
next
  case (Suc n)
  show ?case
  proof (cases "i < length xs")
    case True
    then show ?thesis by (simp add: nth_append)
  next
    case False
    then have "i - length xs < n * length xs" using Suc.prems by simp
    then have "concat (replicate n xs) ! (i - length xs) = xs ! ((i - length xs) mod length xs)"
      by (rule Suc.IH)
    moreover have "(i - length xs) mod length xs = i mod length xs"
      using False by (simp add: le_mod_geq)
    ultimately show ?thesis using False by (simp add: nth_append)
  qed
qed

lemma fallback_embedding_eq:
  "fallback_embedding text
   = map (\<lambda>b. of_nat (unat b) / 255) (take 768 (concat (replicate 25 (sha256 (utf8 text)))))"
proof -
  have "768 div 32 + 1 = (25::nat)" by simp
  then show ?thesis
    by (simp only: fallback_embedding_def fallback_embedding_dim_def Let_def sha256_length)
qed

lemma fallback_embedding_length: "length (fallback_embedding text) = 768"
  by (simp add: fallback_embedding_eq length_concat_replicate sha256_length)

lemma fallback_embedding_nth:
  assumes "i < 768"
  shows "fallback_embedding text ! i = of_nat (unat (sha256 (utf8 text) ! (i mod 32))) / 255"
proof -
  have "i < 25 * length (sha256 (utf8 text))" using assms by (simp add: sha256_length)
  then have "concat (replicate 25 (sha256 (utf8 text))) ! i
             = sha256 (utf8 text) ! (i mod length (sha256 (utf8 text)))"
    by (rule nth_concat_replicate)
  then show ?thesis
    using assms
    by (simp add: fallback_embedding_eq length_concat_replicate sha256_length)
qed

lemma nat_fraction_range:
  "n \<le> 255 \<Longrightarrow> 0 \<le> (of_nat n / 255 :: rat) \<and> (of_nat n / 255 :: rat) \<le> 1"
proof -
  assume "n \<le> 255"
  then have "(of_nat n :: rat) \<le> of_nat 255" by (simp only: of_nat_le_iff)
  then show ?thesis by simp
qed

lemma byte_fraction_range:
  fixes b :: byte
  shows "0 \<le> (of_nat (unat b) / 255 :: rat) \<and> (of_nat (unat b) / 255 :: rat) \<le> 1"
proof -
  have "unat b < 2 ^ LENGTH(8)" by (rule unsigned_less)
  then have "unat b \<le> 255" by simp
  then show ?thesis by (rule nat_fraction_range)
qed

lemma fallback_embedding_inj:
  assumes "fallback_embedding s = fallback_embedding t"
  shows "sha256 (utf8 s) = sha256 (utf8 t)"
proof (rule nth_equalityI)
  show "length (sha256 (utf8 s)) = length (sha256 (utf8 t))" by (simp add: sha256_length)
next
  fix i assume "i < length (sha256 (utf8 s))"
  then have i: "i < 32" by (simp add: sha256_length)
  then have "fallback_embedding s ! i = of_nat (unat (sha256 (utf8 s) ! i)) / 255"
    and "fallback_embedding t ! i = of_nat (unat (sha256 (utf8 t) ! i)) / 255"
    using fallback_embedding_nth [of i] by simp_all
  then have "(of_nat (unat (sha256 (utf8 s) ! i)) :: rat) = of_nat (unat (sha256 (utf8 t) ! i))"
    using assms by simp
  then have "unat (sha256 (utf8 s) ! i) = unat (sha256 (utf8 t) ! i)"
    by (simp only: of_nat_eq_iff)
  then show "sha256 (utf8 s) ! i = sha256 (utf8 t) ! i" by (simp only: word_unat_eq_iff)
qed

lemma sha256_abc:
  "sha256 (utf8 ''abc'') = [186, 120, 22, 191, 143, 1, 207, 234, 65, 65, 64, 222, 93, 174, 34, 35, 176, 3, 97, 163, 150, 23, 122, 156, 180, 16, 255, 97, 242, 0, 21, 173]"
  by code_simp

lemma sha256_abcd:
  "sha256 (utf8 ''abcd'') = [136, 212, 38, 111, 212, 230, 51, 141, 19, 184, 69, 252, 242, 137, 87, 157, 32, 156, 137, 120, 35, 185, 33, 125, 163, 225, 97, 147, 111, 3, 21, 137]"
  by code_simp

text \<open>
  C7. Without a model, \<open>embed\<close> returns one vector for each text: the bytes of the
  SHA-256 digest of the text's UTF-8 encoding, repeated 25 times and cut to 768, each byte
  \<open>b\<close> mapped to \<open>b / 255\<close>; so component \<open>i\<close> is byte \<open>i mod 32\<close> of the digest over
  255, between 0 and 1. The vector is a function of the digest alone, and two texts have
  the same vector exactly when they have the same digest: the same text gives the same
  vector, and the texts \<open>abc\<close> and \<open>abcd\<close> give different vectors. The float quotient
  \<open>b / 255.0\<close> is read as the rational it rounds; distinct bytes give distinct floats.
\<close>

theorem fallback_embedding_from_digest:
  "length (embed None texts) = length texts
   \<and> (\<forall>j < length texts.
         embed None texts ! j
           = map (\<lambda>b. of_nat (unat b) / 255)
               (take 768 (concat (replicate 25 (sha256 (utf8 (texts ! j))))))
       \<and> length (embed None texts ! j) = 768
       \<and> (\<forall>i < 768.
             embed None texts ! j ! i = of_nat (unat (sha256 (utf8 (texts ! j)) ! (i mod 32))) / 255
           \<and> 0 \<le> embed None texts ! j ! i \<and> embed None texts ! j ! i \<le> 1))
   \<and> (\<forall>s t. embed None [s] = embed None [t] \<longleftrightarrow> sha256 (utf8 s) = sha256 (utf8 t))
   \<and> embed None [''abc''] \<noteq> embed None [''abcd'']"
proof (intro conjI allI impI)
  show "length (embed None texts) = length texts" by (simp add: embed_def)
next
  fix j assume j: "j < length texts"
  then have e: "embed None texts ! j = fallback_embedding (texts ! j)" by (simp add: embed_def)
  show "embed None texts ! j
           = map (\<lambda>b. of_nat (unat b) / 255)
               (take 768 (concat (replicate 25 (sha256 (utf8 (texts ! j))))))"
    by (simp only: e fallback_embedding_eq)
  show "length (embed None texts ! j) = 768"
    by (simp only: e fallback_embedding_length)
  fix i :: nat assume i: "i < 768"
  show "embed None texts ! j ! i = of_nat (unat (sha256 (utf8 (texts ! j)) ! (i mod 32))) / 255"
    using fallback_embedding_nth [OF i] by (simp only: e)
  then show "0 \<le> embed None texts ! j ! i" and "embed None texts ! j ! i \<le> 1"
    using byte_fraction_range [of "sha256 (utf8 (texts ! j)) ! (i mod 32)"] by simp_all
next
  fix s t
  show "embed None [s] = embed None [t] \<longleftrightarrow> sha256 (utf8 s) = sha256 (utf8 t)"
  proof
    assume "embed None [s] = embed None [t]"
    then have "fallback_embedding s = fallback_embedding t" by (simp add: embed_def)
    then show "sha256 (utf8 s) = sha256 (utf8 t)" by (rule fallback_embedding_inj)
  next
    assume "sha256 (utf8 s) = sha256 (utf8 t)"
    then show "embed None [s] = embed None [t]"
      by (simp add: embed_def fallback_embedding_eq)
  qed
next
  show "embed None [''abc''] \<noteq> embed None [''abcd'']"
  proof
    assume "embed None [''abc''] = embed None [''abcd'']"
    then have "fallback_embedding ''abc'' = fallback_embedding ''abcd''" by (simp add: embed_def)
    then have "sha256 (utf8 ''abc'') = sha256 (utf8 ''abcd'')" by (rule fallback_embedding_inj)
    then show False by (simp only: sha256_abc sha256_abcd) simp
  qed
qed

theorem fallback_embedding_from_digest_witness:
  "length (embed None [''abc'']) = 1 \<and> length (embed None [''abc''] ! 0) = 768
   \<and> embed None [''abc''] ! 0 ! 0 = 62 / 85 \<and> embed None [''abc''] ! 0 ! 33 = 8 / 17"
proof -
  note t = fallback_embedding_from_digest [of "[''abc'']"]
  have j: "0 < length [''abc'']" by simp
  note tj = t [THEN conjunct2, THEN conjunct1, rule_format, OF j]
  have l: "length (embed None [''abc''] ! 0) = 768"
    using tj [THEN conjunct2, THEN conjunct1] .
  have "embed None [''abc''] ! 0 ! 0 = of_nat (unat (sha256 (utf8 ([''abc''] ! 0)) ! (0 mod 32))) / 255"
    using tj [THEN conjunct2, THEN conjunct2, rule_format, of 0] by simp
  then have a: "embed None [''abc''] ! 0 ! 0 = 62 / 85" by (simp add: sha256_abc)
  have "embed None [''abc''] ! 0 ! 33 = of_nat (unat (sha256 (utf8 ([''abc''] ! 0)) ! (33 mod 32))) / 255"
    using tj [THEN conjunct2, THEN conjunct2, rule_format, of 33] by simp
  then have b: "embed None [''abc''] ! 0 ! 33 = 8 / 17" by (simp add: sha256_abc)
  show ?thesis using t [THEN conjunct1] l a b by simp
qed

end
